theory Spec2Isabelle
  imports Main "HOL-Library.AList" "HOL-Library.Char_ord" "HOL-Library.List_Lexorder"
begin

section \<open>The Python values and built-ins the scripts use\<close>

text \<open>
  The repository consists of two scripts, \<^verbatim>\<open>self_assesment.py\<close> (reading results,
  tables, plots) and \<^verbatim>\<open>self-assesment.py\<close> (the interactive variant). Both are
  sequential Python; the embedding below follows them statement by statement.

  \<^item> A Python \<open>str\<close> is a \<open>string\<close>; a \<open>char\<close> stands for a code point below 256, and
    \<open>length\<close> is Python's \<open>len\<close>.
  \<^item> A Python \<open>int\<close> is an \<open>int\<close>.
  \<^item> A dict that is iterated is an association list with distinct keys in insertion
    order: \<open>d[k] = v\<close> is \<open>AList.update k v d\<close>, which replaces the value in place if
    \<open>k\<close> is present and appends the pair otherwise. A dict that is only indexed is a
    map \<open>'k \<rightharpoonup> 'v\<close>.
  \<^item> A raised exception is the \<open>Inl\<close> branch of a sum.
  \<^item> The files are a map from file name to contents; \<open>print\<close> appends a line to a
    list of printed lines.

  \<open>str\<close> and \<open>int\<close> convert integers of any size. \<open>strftime\<close> is the one of the C
  library, as in CPython before 3.13 on glibc: it writes the year without padding, so
  a year below 1000 has fewer than four digits.
\<close>

datatype error = IndexError | KeyError | ValueError | AttributeError | FileNotFoundError

text \<open>\<open>str.isspace\<close> on one character (code points below 256).\<close>

definition isspace :: "char \<Rightarrow> bool" where
  "isspace c = (c \<in> set [CHR 0x09, CHR 0x0A, CHR 0x0B, CHR 0x0C, CHR 0x0D, CHR 0x1C,
                         CHR 0x1D, CHR 0x1E, CHR 0x1F, CHR 0x20, CHR 0x85, CHR 0xA0])"

definition isdigit :: "char \<Rightarrow> bool" where
  "isdigit c = (c \<in> set ''0123456789'')"

text \<open>\<open>s.strip()\<close>\<close>

definition strip :: "string \<Rightarrow> string" where
  "strip s = rev (dropWhile isspace (rev (dropWhile isspace s)))"

text \<open>\<open>s.split(sep)\<close> for a separator of one character: never the empty list.\<close>

fun split_sep :: "char \<Rightarrow> string \<Rightarrow> string list" where
  "split_sep sep [] = [[]]"
| "split_sep sep (c # cs) =
     (if c = sep then [] # split_sep sep cs
      else (case split_sep sep cs of [] \<Rightarrow> [[c]] | w # ws \<Rightarrow> (c # w) # ws))"

text \<open>\<open>s.split()\<close>: the maximal runs of characters that are not whitespace.\<close>

fun split_ws :: "string \<Rightarrow> string list" where
  "split_ws [] = []"
| "split_ws (c # cs) =
     (if isspace c then split_ws cs
      else if cs = [] \<or> isspace (hd cs) then [c] # split_ws cs
      else (case split_ws cs of [] \<Rightarrow> [[c]] | w # ws \<Rightarrow> (c # w) # ws))"

text \<open>\<open>sep.join(xs)\<close>\<close>

fun join :: "string \<Rightarrow> string list \<Rightarrow> string" where
  "join sep [] = []"
| "join sep [x] = x"
| "join sep (x # y # ys) = x @ sep @ join sep (y # ys)"

text \<open>\<open>str(i)\<close> and \<open>'{}'.format(i)\<close> for an int: decimal digits, \<open>-\<close> for a negative one.\<close>

definition digit_char :: "nat \<Rightarrow> char" where
  "digit_char d = ''0123456789'' ! d"

definition digit_val :: "char \<Rightarrow> nat" where
  "digit_val c = of_char c - 48"

fun str_nat :: "nat \<Rightarrow> string" where
  "str_nat n = (if n < 10 then [digit_char n] else str_nat (n div 10) @ [digit_char (n mod 10)])"

definition str_int :: "int \<Rightarrow> string" where
  "str_int i = (if i < 0 then CHR ''-'' # str_nat (nat (- i)) else str_nat (nat i))"

text \<open>
  \<open>int(s)\<close> for a str: surrounding whitespace is dropped, one sign is allowed, the
  digits may be grouped by single underscores; anything else is a \<open>ValueError\<close>
  (\<open>None\<close> here).
\<close>

definition nat_of_digits :: "string \<Rightarrow> nat" where
  "nat_of_digits ds = foldl (\<lambda>a c. 10 * a + digit_val c) 0 ds"

definition digit_groups :: "string \<Rightarrow> nat option" where
  "digit_groups body =
     (let groups = split_sep (CHR ''_'') body
      in if list_all (\<lambda>g. g \<noteq> [] \<and> list_all isdigit g) groups
         then Some (nat_of_digits (concat groups)) else None)"

definition py_int :: "string \<Rightarrow> int option" where
  "py_int s =
     (case strip s of
        [] \<Rightarrow> None
      | c # r \<Rightarrow>
          if c = CHR ''-'' then map_option (\<lambda>n. - int n) (digit_groups r)
          else if c = CHR ''+'' then map_option int (digit_groups r)
          else map_option int (digit_groups (c # r)))"

text \<open>
  Iterating over a file opened in text mode: the lines, each with its line end, where
  \<open>\n\<close>, \<open>\r\<close> and \<open>\r\n\<close> all end a line and are read as \<open>\n\<close>.
\<close>

fun readlines :: "string \<Rightarrow> string list" where
  "readlines [] = []"
| "readlines (c # cs) =
     (if c = CHR 0x0A then [CHR 0x0A] # readlines cs
      else if c = CHR 0x0D then
        (case cs of
           [] \<Rightarrow> [[CHR 0x0A]]
         | d # ds \<Rightarrow> if d = CHR 0x0A then [CHR 0x0A] # readlines ds
                     else [CHR 0x0A] # readlines cs)
      else (case readlines cs of [] \<Rightarrow> [[c]] | l # ls \<Rightarrow> (c # l) # ls))"

type_synonym files = "string \<rightharpoonup> string"

text \<open>\<open>open(filename, 'r')\<close> and iterating over it.\<close>

definition open_r :: "files \<Rightarrow> string \<Rightarrow> error + string list" where
  "open_r fs filename =
     (case fs filename of None \<Rightarrow> Inl FileNotFoundError | Some text \<Rightarrow> Inr (readlines text))"

text \<open>\<open>open(outfile, 'a')\<close> and one \<open>write\<close>: the file is created when it is absent.\<close>

definition open_a_write :: "files \<Rightarrow> string \<Rightarrow> string \<Rightarrow> files" where
  "open_a_write fs outfile text =
     fs(outfile \<mapsto> (case fs outfile of None \<Rightarrow> [] | Some old \<Rightarrow> old) @ text)"

text \<open>
  \<open>'{0:<Ws}'.format(s)\<close> and \<open>'{0:^Ws}'.format(s)\<close>: padding with spaces to width \<open>W\<close>,
  never cutting; centring puts the smaller half of the padding to the left.
\<close>

definition ljust :: "nat \<Rightarrow> string \<Rightarrow> string" where
  "ljust w s = s @ replicate (w - length s) (CHR '' '')"

definition center :: "nat \<Rightarrow> string \<Rightarrow> string" where
  "center w s =
     (let pad = w - length s; left = pad div 2
      in replicate left (CHR '' '') @ s @ replicate (pad - left) (CHR '' ''))"

subsection \<open>\<open>datetime.datetime\<close> with the pattern \<open>%d.%m.%Y-%H:%M:%S:%f\<close>\<close>

text \<open>
  A naive \<open>datetime\<close> (what \<open>datetime.now()\<close> returns) has seven fields; the constructor
  accepts exactly the values of \<open>valid_datetime\<close>. \<open>strftime\<close> with the pattern writes
  day, month, hour, minute and second with two digits and the microsecond with six,
  padded with zeros, and the year as it is, without padding. \<open>strptime\<close> with the same pattern
  matches the text against one regular expression per directive and then builds the
  \<open>datetime\<close>, so a text that does not match, has characters left over or names a date
  that does not exist is a \<open>ValueError\<close> (\<open>None\<close> here).
\<close>

record datetime =
  year :: nat
  month :: nat
  day :: nat
  hour :: nat
  minute :: nat
  second :: nat
  microsecond :: nat

definition is_leap :: "nat \<Rightarrow> bool" where
  "is_leap y = (y mod 4 = 0 \<and> (y mod 100 \<noteq> 0 \<or> y mod 400 = 0))"

definition days_in_month :: "nat \<Rightarrow> nat \<Rightarrow> nat" where
  "days_in_month y m =
     (if m = 2 then (if is_leap y then 29 else 28)
      else if m = 4 \<or> m = 6 \<or> m = 9 \<or> m = 11 then 30 else 31)"

definition valid_datetime :: "datetime \<Rightarrow> bool" where
  "valid_datetime t =
     (1 \<le> year t \<and> year t \<le> 9999 \<and> 1 \<le> month t \<and> month t \<le> 12 \<and>
      1 \<le> day t \<and> day t \<le> days_in_month (year t) (month t) \<and>
      hour t < 24 \<and> minute t < 60 \<and> second t < 60 \<and> microsecond t < 1000000)"

definition zfill :: "nat \<Rightarrow> string \<Rightarrow> string" where
  "zfill w s = replicate (w - length s) (CHR ''0'') @ s"

definition strftime :: "datetime \<Rightarrow> string" where
  "strftime t =
     zfill 2 (str_nat (day t)) @ ''.'' @ zfill 2 (str_nat (month t)) @ ''.'' @
     str_nat (year t) @ ''-'' @ zfill 2 (str_nat (hour t)) @ '':'' @
     zfill 2 (str_nat (minute t)) @ '':'' @ zfill 2 (str_nat (second t)) @ '':'' @
     zfill 6 (str_nat (microsecond t))"

text \<open>
  A directive followed by a literal that is not a digit matches the whole run of
  digits in front of the literal or nothing. \<open>digit_field lo hi1 hi2\<close> is such a
  directive: one digit whose value is at least \<open>lo\<close> and at most \<open>hi1\<close>, or two digits
  whose value is at least \<open>lo\<close> and at most \<open>hi2\<close>.
  \<open>%d\<close> is \<open>3[0-1]|[1-2]\d|0[1-9]|[1-9]| [1-9]\<close>, \<open>%m\<close> is \<open>1[0-2]|0[1-9]|[1-9]\<close>,
  \<open>%Y\<close> is \<open>\d\d\d\d\<close>, \<open>%H\<close> is \<open>2[0-3]|[0-1]\d|\d\<close>, \<open>%M\<close> is \<open>[0-5]\d|\d\<close>,
  \<open>%S\<close> is \<open>6[0-1]|[0-5]\d|\d\<close> and \<open>%f\<close> is \<open>[0-9]{1,6}\<close>, read as a fraction of a
  second.
\<close>

definition digit_field :: "nat \<Rightarrow> nat \<Rightarrow> nat \<Rightarrow> string \<Rightarrow> (nat \<times> string) option" where
  "digit_field lo hi1 hi2 s =
     (let ds = takeWhile isdigit s; v = nat_of_digits ds
      in if (length ds = 1 \<and> lo \<le> v \<and> v \<le> hi1) \<or> (length ds = 2 \<and> lo \<le> v \<and> v \<le> hi2)
         then Some (v, dropWhile isdigit s) else None)"

definition day_field :: "string \<Rightarrow> (nat \<times> string) option" where
  "day_field s =
     (case s of
        [] \<Rightarrow> None
      | c # r \<Rightarrow>
          if c = CHR '' '' then
            (case r of
               [] \<Rightarrow> None
             | d # r' \<Rightarrow> if isdigit d \<and> d \<noteq> CHR ''0'' then Some (digit_val d, r') else None)
          else digit_field 1 9 31 s)"

definition year_field :: "string \<Rightarrow> (nat \<times> string) option" where
  "year_field s =
     (let ds = takeWhile isdigit s
      in if length ds = 4 then Some (nat_of_digits ds, dropWhile isdigit s) else None)"

definition fraction_field :: "string \<Rightarrow> nat option" where
  "fraction_field s =
     (if s \<noteq> [] \<and> length s \<le> 6 \<and> list_all isdigit s
      then Some (nat_of_digits (s @ replicate (6 - length s) (CHR ''0''))) else None)"

definition literal :: "char \<Rightarrow> string \<Rightarrow> string option" where
  "literal c s = (case s of [] \<Rightarrow> None | x # r \<Rightarrow> if x = c then Some r else None)"

definition strptime :: "string \<Rightarrow> datetime option" where
  "strptime s =
     Option.bind (day_field s) (\<lambda>(d, s1).
     Option.bind (literal (CHR ''.'') s1) (\<lambda>s2.
     Option.bind (digit_field 1 9 12 s2) (\<lambda>(m, s3).
     Option.bind (literal (CHR ''.'') s3) (\<lambda>s4.
     Option.bind (year_field s4) (\<lambda>(y, s5).
     Option.bind (literal (CHR ''-'') s5) (\<lambda>s6.
     Option.bind (digit_field 0 9 23 s6) (\<lambda>(h, s7).
     Option.bind (literal (CHR '':'') s7) (\<lambda>s8.
     Option.bind (digit_field 0 9 59 s8) (\<lambda>(mi, s9).
     Option.bind (literal (CHR '':'') s9) (\<lambda>s10.
     Option.bind (digit_field 0 9 61 s10) (\<lambda>(sec, s11).
     Option.bind (literal (CHR '':'') s11) (\<lambda>s12.
     Option.bind (fraction_field s12) (\<lambda>f.
       (let t = \<lparr>year = y, month = m, day = d, hour = h, minute = mi, second = sec,
                  microsecond = f\<rparr>
        in if valid_datetime t then Some t else None))))))))))))))"

subsection \<open>Adding to a dict of sums\<close>

text \<open>
  \<open>if category not in d: d[category] = 0\<close> followed by \<open>d[category] += answer\<close>: a new
  category goes to the end of the dict, a known one keeps its place.
\<close>

definition add_to_category :: "string \<Rightarrow> int \<Rightarrow> (string \<times> int) list \<Rightarrow> (string \<times> int) list" where
  "add_to_category category answer d =
     AList.update category ((case map_of d category of None \<Rightarrow> 0 | Some v \<Rightarrow> v) + answer) d"

section \<open>\<^verbatim>\<open>self-assesment.py\<close>: the interactive script\<close>

text \<open>
  Here \<open>questions\<close> is a list of pairs \<open>(i, question)\<close> in file order and \<open>mapping\<close> a dict
  from \<open>i\<close> to the category.
\<close>

fun read_questions_lines :: "nat \<Rightarrow> string list \<Rightarrow> (int \<times> string) list \<Rightarrow> (int \<rightharpoonup> string) \<Rightarrow>
    error + (int \<times> string) list \<times> (int \<rightharpoonup> string)" where
  "read_questions_lines i [] questions mapping = Inr (questions, mapping)"
| "read_questions_lines i (lines # rest) questions mapping =
     (let split = split_sep (CHR ''|'') lines;
          question = strip (split ! 0)
      in if length split \<le> 1 then Inl IndexError
         else read_questions_lines (Suc i) rest (questions @ [(int i, question)])
                (mapping(int i \<mapsto> strip (split ! 1))))"

definition read_questions :: "files \<Rightarrow> string \<Rightarrow> error + (int \<times> string) list \<times> (int \<rightharpoonup> string)" where
  "read_questions fs filename =
     (case open_r fs filename of
        Inl e \<Rightarrow> Inl e
      | Inr infile \<Rightarrow> read_questions_lines 0 infile [] Map.empty)"

text \<open>
  \<open>ask_questions\<close>: \<open>now\<close> is the reading of the clock at entry, \<open>out\<close> the lines printed
  so far. The answer is the constant \<open>0\<close>; nothing is read. \<open>scorings\<close> is not used.
\<close>

fun ask_questions_loop :: "(int \<times> string) list \<Rightarrow> (int \<rightharpoonup> string) \<Rightarrow> (int \<times> int) list \<Rightarrow>
    (string \<times> int) list \<Rightarrow> string list \<Rightarrow> error + (int \<times> int) list \<times> (string \<times> int) list \<times> string list" where
  "ask_questions_loop [] mapping result_q result_c out = Inr (result_q, result_c, out)"
| "ask_questions_loop ((idx, question) # questions) mapping result_q result_c out =
     (let answer = 0;
          result_q' = AList.update idx answer result_q
      in case mapping idx of
           None \<Rightarrow> Inl KeyError
         | Some category \<Rightarrow>
             ask_questions_loop questions mapping result_q'
               (add_to_category category answer result_c)
               (out @ [join '' '' [str_int idx, question, category]]))"

definition ask_questions :: "datetime \<Rightarrow> (int \<times> string) list \<Rightarrow> (string \<times> int) list \<Rightarrow>
    (int \<rightharpoonup> string) \<Rightarrow> string list \<Rightarrow>
    error + (int \<times> int) list \<times> (string \<times> int) list \<times> datetime \<times> string list" where
  "ask_questions now questions scorings mapping out =
     (case ask_questions_loop questions mapping [] [] out of
        Inl e \<Rightarrow> Inl e
      | Inr (result_q, result_c, out') \<Rightarrow> Inr (result_q, result_c, now, out'))"

section \<open>\<^verbatim>\<open>self_assesment.py\<close>: scorings, the result store and the tables\<close>

subsection \<open>\<open>read_scorings\<close>\<close>

text \<open>
  The body of the loop is \<open>scorings[split[1].strip()] = int(split[0].strip())\<close>: Python
  evaluates the right-hand side first, so a score that is no integer is a
  \<open>ValueError\<close> before a missing second field is an \<open>IndexError\<close>.
\<close>

fun read_scorings_lines :: "string list \<Rightarrow> (string \<times> int) list \<Rightarrow> error + (string \<times> int) list" where
  "read_scorings_lines [] scorings = Inr scorings"
| "read_scorings_lines (lines # rest) scorings =
     (let split = split_sep (CHR ''='') lines
      in case py_int (strip (split ! 0)) of
           None \<Rightarrow> Inl ValueError
         | Some score \<Rightarrow>
             (if length split \<le> 1 then Inl IndexError
              else read_scorings_lines rest (AList.update (strip (split ! 1)) score scorings)))"

definition read_scorings :: "files \<Rightarrow> string \<Rightarrow> error + (string \<times> int) list" where
  "read_scorings fs filename =
     (case open_r fs filename of
        Inl e \<Rightarrow> Inl e
      | Inr infile \<Rightarrow> read_scorings_lines infile [])"

subsection \<open>\<open>store_results\<close>\<close>

text \<open>
  \<open>result_q\<close> is a dict and \<open>key\<close> runs over its sorted keys, so \<open>result_q[key]\<close> is
  always there.
\<close>

definition store_results_out :: "(int \<times> int) list \<Rightarrow> datetime \<Rightarrow> string list" where
  "store_results_out result_q time =
     [''time='' @ strftime time] @
     map (\<lambda>key. str_int key @ ''='' @ str_int (the (map_of result_q key)))
       (sort (map fst result_q)) @
     [[CHR 0x0A]]"

definition store_results :: "files \<Rightarrow> string \<Rightarrow> (int \<times> int) list \<Rightarrow> datetime \<Rightarrow> files" where
  "store_results fs outfile result_q time =
     open_a_write fs outfile (join '' '' (store_results_out result_q time))"

subsection \<open>\<open>read_results\<close>\<close>

record session =
  time :: "datetime option"
  result_q :: "(int \<times> int) list"
  result_c :: "(string \<times> int) list"

text \<open>The body of \<open>for i in split\<close>.\<close>

definition read_results_token :: "(int \<rightharpoonup> string) \<Rightarrow> session \<Rightarrow> string \<Rightarrow> error + session" where
  "read_results_token mapping new_result i =
     (let spliti = split_sep (CHR ''='') i
      in if spliti ! 0 = ''time'' then
           (if length spliti \<le> 1 then Inl IndexError
            else case strptime (spliti ! 1) of
                   None \<Rightarrow> Inl ValueError
                 | Some t \<Rightarrow> Inr (new_result\<lparr>time := Some t\<rparr>))
         else
           (case py_int (spliti ! 0) of
              None \<Rightarrow> Inl ValueError
            | Some idx \<Rightarrow>
                (if length spliti \<le> 1 then Inl IndexError
                 else case py_int (spliti ! 1) of
                        None \<Rightarrow> Inl ValueError
                      | Some answer \<Rightarrow>
                          (case mapping idx of
                             None \<Rightarrow> Inl KeyError
                           | Some category \<Rightarrow>
                               Inr (new_result
                                     \<lparr>result_q := AList.update idx answer (result_q new_result),
                                      result_c := add_to_category category answer
                                                    (result_c new_result)\<rparr>)))))"

fun read_results_tokens :: "(int \<rightharpoonup> string) \<Rightarrow> session \<Rightarrow> string list \<Rightarrow> error + session" where
  "read_results_tokens mapping new_result [] = Inr new_result"
| "read_results_tokens mapping new_result (i # split) =
     (case read_results_token mapping new_result i of
        Inl e \<Rightarrow> Inl e
      | Inr r \<Rightarrow> read_results_tokens mapping r split)"

text \<open>The body of \<open>for lines in infile\<close>, up to \<open>results.append\<close>.\<close>

definition read_results_line :: "(int \<rightharpoonup> string) \<Rightarrow> string \<Rightarrow> error + session" where
  "read_results_line mapping lines =
     read_results_tokens mapping \<lparr>time = None, result_q = [], result_c = []\<rparr>
       (split_ws (strip lines))"

fun read_results_lines :: "(int \<rightharpoonup> string) \<Rightarrow> string list \<Rightarrow> session list \<Rightarrow> error + session list" where
  "read_results_lines mapping [] results = Inr results"
| "read_results_lines mapping (lines # rest) results =
     (case read_results_line mapping lines of
        Inl e \<Rightarrow> Inl e
      | Inr new_result \<Rightarrow> read_results_lines mapping rest (results @ [new_result]))"

definition read_results :: "files \<Rightarrow> string \<Rightarrow> (int \<rightharpoonup> string) \<Rightarrow> error + session list" where
  "read_results fs filename mapping =
     (case open_r fs filename of
        Inl e \<Rightarrow> Inl e
      | Inr infile \<Rightarrow> read_results_lines mapping infile [])"

subsection \<open>\<open>generate_rst_table\<close>\<close>

text \<open>
  The two loops that widen \<open>col_len\<close>: \<open>col_len[i]\<close> is an \<open>IndexError\<close> for a row with
  more cells than there are headings.
\<close>

fun col_len_row :: "nat \<Rightarrow> string list \<Rightarrow> nat list \<Rightarrow> error + nat list" where
  "col_len_row i [] col_len = Inr col_len"
| "col_len_row i (col # row) col_len =
     (if length col_len \<le> i then Inl IndexError
      else col_len_row (Suc i) row
             (if int (length col) \<ge> int (col_len ! i) - 2
              then col_len[i := length col + 2] else col_len))"

fun col_len_table :: "string list list \<Rightarrow> nat list \<Rightarrow> error + nat list" where
  "col_len_table [] col_len = Inr col_len"
| "col_len_table (row # table) col_len =
     (case col_len_row 0 row col_len of
        Inl e \<Rightarrow> Inl e
      | Inr col_len' \<Rightarrow> col_len_table table col_len')"

text \<open>
  \<open>'|'.join([''] + [fmt.format(col) for fmt, col in zip(head_fmt, row)] + [''])\<close>, where
  \<open>head_fmt\<close> centres in the widths of \<open>col_len\<close>.
\<close>

definition row_line :: "nat list \<Rightarrow> string list \<Rightarrow> string" where
  "row_line col_len row =
     join ''|'' ([[]] @ map (\<lambda>(w, col). center w col) (zip col_len row) @ [[]])"

definition hline :: "nat list \<Rightarrow> string" where
  "hline col_len = join ''+'' ([[]] @ map (\<lambda>col. replicate col (CHR ''-'')) col_len @ [[]])"

text \<open>
  \<open>width\<close> is \<open>-1\<close> when there are no headings; the title format \<open>{0:<-1s}\<close> is then a
  \<open>ValueError\<close>.
\<close>

definition generate_rst_table :: "string list list \<Rightarrow> string \<Rightarrow> string list \<Rightarrow> error + string list" where
  "generate_rst_table table title headings =
     (case col_len_table table (map (\<lambda>col. length col + 2) headings) of
        Inl e \<Rightarrow> Inl e
      | Inr col_len \<Rightarrow>
          (let width = int (length col_len) + int (sum_list col_len) - 1;
               topline = ''+'' @ replicate (nat width) (CHR ''-'') @ ''+''
           in if width < 0 then Inl ValueError
              else
                (let str_header = ''|'' @ ljust (nat width) title @ ''|'';
                     str_table = [topline, str_header, hline col_len, row_line col_len headings,
                                  map (\<lambda>c. if c = CHR ''-'' then CHR ''='' else c) (hline col_len)]
                 in Inr (str_table @ concat (map (\<lambda>row. [row_line col_len row, hline col_len]) table)))))"

subsection \<open>\<open>table_results_low_questions\<close>\<close>

definition CATEGORIES :: "(string \<times> string) list" where
  "CATEGORIES = [(''mental'', ''Mental''), (''technique'', ''Technique and Tactics''),
                 (''physical'', ''Physical'')]"

text \<open>
  The loop over \<open>result['result_q'].items()\<close> that fills \<open>low\<close>: \<open>mapping[idx]\<close> is read
  for every answer, \<open>questions[idx]\<close> only for a low one.
\<close>

fun low_questions :: "(int \<times> int) list \<Rightarrow> (int \<rightharpoonup> string) \<Rightarrow> (int \<rightharpoonup> string) \<Rightarrow>
    (string \<times> string list list) list \<Rightarrow> error + (string \<times> string list list) list" where
  "low_questions [] questions mapping low = Inr low"
| "low_questions ((idx, answer) # items) questions mapping low =
     (case mapping idx of
        None \<Rightarrow> Inl KeyError
      | Some category \<Rightarrow>
          (if answer \<le> 3 then
             (case questions idx of
                None \<Rightarrow> Inl KeyError
              | Some question \<Rightarrow>
                  low_questions items questions mapping
                    (AList.update category
                       ((case map_of low category of None \<Rightarrow> [] | Some rows \<Rightarrow> rows) @
                        [[str_int idx, question, str_int answer]]) low))
           else low_questions items questions mapping low))"

definition low_title :: "string \<Rightarrow> string" where
  "low_title name = ''Lowest scoring in category '' @ [CHR 0x22] @ name @ [CHR 0x22]"

text \<open>
  The loop \<open>for i in sorted(low.keys())\<close>; \<open>out\<close> is what has been printed so far, and
  the result pairs it with the exception that ended the loop, if any.
\<close>

fun low_tables :: "string list \<Rightarrow> (string \<times> string list list) list \<Rightarrow> string list \<Rightarrow>
    string list \<times> error option" where
  "low_tables [] low out = (out, None)"
| "low_tables (i # cats) low out =
     (case map_of CATEGORIES i of
        None \<Rightarrow> (out, Some KeyError)
      | Some name \<Rightarrow>
          (case generate_rst_table (the (map_of low i)) (low_title name)
                  [''ID'', ''Question'', ''Answer''] of
             Inl e \<Rightarrow> (out, Some e)
           | Inr table \<Rightarrow> low_tables cats low (out @ table)))"

text \<open>The body of \<open>for result in results\<close>; \<open>None.strftime\<close> is an \<open>AttributeError\<close>.\<close>

definition table_results_low_questions_result ::
    "session \<Rightarrow> (int \<rightharpoonup> string) \<Rightarrow> (int \<rightharpoonup> string) \<Rightarrow> string list \<Rightarrow> string list \<times> error option" where
  "table_results_low_questions_result result questions mapping out =
     (case time result of
        None \<Rightarrow> (out @ [[]], Some AttributeError)
      | Some t \<Rightarrow>
          (let out' = out @ [[], ''Results for questions on '' @ strftime t]
           in case low_questions (result_q result) questions mapping [] of
                Inl e \<Rightarrow> (out', Some e)
              | Inr low \<Rightarrow> low_tables (sort (map fst low)) low out'))"

fun table_results_low_questions ::
    "session list \<Rightarrow> (int \<rightharpoonup> string) \<Rightarrow> (int \<rightharpoonup> string) \<Rightarrow> string list \<Rightarrow> string list \<times> error option" where
  "table_results_low_questions [] questions mapping out = (out, None)"
| "table_results_low_questions (result # results) questions mapping out =
     (case table_results_low_questions_result result questions mapping out of
        (out', Some e) \<Rightarrow> (out', Some e)
      | (out', None) \<Rightarrow> table_results_low_questions results questions mapping out')"

section \<open>Notions used in the statements\<close>

text \<open>
  None of the following is code of the scripts. They name what the statements speak
  about: parts of a line, and what a report is expected to hold.
\<close>

text \<open>The number of border glyphs \<open>|\<close> and \<open>+\<close> in a line of a table.\<close>

definition border_glyphs :: "string \<Rightarrow> nat" where
  "border_glyphs s = length (filter (\<lambda>c. c = CHR ''|'' \<or> c = CHR ''+'') s)"

text \<open>
  A line \<open>SCORE = LABEL\<close> of the scorings file: the score is the trimmed text before the
  first \<open>=\<close>, the label the trimmed text after it, up to a second \<open>=\<close> if there is
  one. The line is well formed when it has a \<open>=\<close> and \<open>int\<close> accepts the score.
\<close>

definition score_field :: "string \<Rightarrow> string" where
  "score_field l = strip (split_sep (CHR ''='') l ! 0)"

definition label_field :: "string \<Rightarrow> string" where
  "label_field l = strip (split_sep (CHR ''='') l ! 1)"

definition well_formed_scoring :: "string \<Rightarrow> bool" where
  "well_formed_scoring l = (CHR ''='' \<in> set l \<and> py_int (score_field l) \<noteq> None)"

text \<open>
  A token \<open>KEY=VALUE\<close> of a line of the results file: its key part, and for an answer
  token the question id and the answer. \<open>answer_token mapping i\<close> holds when \<open>i\<close> is
  \<open>id=answer\<close> with two integers and an id that the mapping knows. \<open>line_ids\<close> lists
  the ids of the answer tokens of a line, in the order of the line.
\<close>

definition token_key :: "string \<Rightarrow> string" where
  "token_key i = split_sep (CHR ''='') i ! 0"

definition token_id :: "string \<Rightarrow> int" where
  "token_id i = the (py_int (split_sep (CHR ''='') i ! 0))"

definition token_answer :: "string \<Rightarrow> int" where
  "token_answer i = the (py_int (split_sep (CHR ''='') i ! 1))"

definition answer_token :: "(int \<rightharpoonup> string) \<Rightarrow> string \<Rightarrow> bool" where
  "answer_token mapping i =
     (CHR ''='' \<in> set i \<and> py_int (split_sep (CHR ''='') i ! 0) \<noteq> None \<and>
      py_int (split_sep (CHR ''='') i ! 1) \<noteq> None \<and> mapping (token_id i) \<noteq> None)"

definition line_ids :: "string \<Rightarrow> int list" where
  "line_ids lines = map token_id (filter (\<lambda>i. token_key i \<noteq> ''time'') (split_ws (strip lines)))"

text \<open>
  The low-scoring report in the words of the specification: the answers of a session
  are filtered to those of at most 3 and grouped by category.
  \<open>spec_low_rows items questions mapping category\<close> are the rows \<open>(id, question, answer)\<close>
  of the answers of at most 3 whose question maps to \<open>category\<close>, in the order of the
  session; \<open>spec_low_categories\<close> are the categories that have such an answer, sorted.
  They are compared below with the dict \<open>low\<close> that \<open>table_results_low_questions\<close>
  builds; \<open>rows_of\<close> reads that dict, an absent key standing for no rows.
\<close>

definition spec_low_rows :: "(int \<times> int) list \<Rightarrow> (int \<rightharpoonup> string) \<Rightarrow> (int \<rightharpoonup> string) \<Rightarrow> string \<Rightarrow>
    string list list" where
  "spec_low_rows items questions mapping category =
     map (\<lambda>(idx, answer). [str_int idx, the (questions idx), str_int answer])
       (filter (\<lambda>(idx, answer). answer \<le> 3 \<and> mapping idx = Some category) items)"

definition spec_low_categories :: "(int \<times> int) list \<Rightarrow> (int \<rightharpoonup> string) \<Rightarrow> string list" where
  "spec_low_categories items mapping =
     sort (remdups (map (\<lambda>(idx, answer). the (mapping idx))
                      (filter (\<lambda>(idx, answer). answer \<le> 3) items)))"

definition rows_of :: "(string \<times> string list list) list \<Rightarrow> string \<Rightarrow> string list list" where
  "rows_of low category = (case map_of low category of None \<Rightarrow> [] | Some rows \<Rightarrow> rows)"

section \<open>Properties\<close>

subsection \<open>The interactive script\<close>

lemma update_fresh: "k \<notin> fst ` set al \<Longrightarrow> AList.update k v al = al @ [(k, v)]"
  by (induction al) auto

lemma add_to_category_zero:
  "list_all (\<lambda>(c, v). v = 0) d \<Longrightarrow> list_all (\<lambda>(c, v). v = 0) (add_to_category category 0 d)"
proof (induction d)
  case Nil
  then show ?case by (simp add: add_to_category_def)
next
  case (Cons p d)
  then show ?case
    by (cases p) (auto simp: add_to_category_def split: option.splits)
qed

lemma add_to_category_keys:
  "fst ` set (add_to_category category answer d) = insert category (fst ` set d)"
  by (simp add: add_to_category_def AList.dom_update)

lemma read_questions_lines_ids:
  "read_questions_lines i ls qs m = Inr (qs', m') \<Longrightarrow>
     map fst qs' = map fst qs @ map int [i..<i + length ls] \<and>
     dom m' = dom m \<union> int ` {i..<i + length ls}"
proof (induction i ls qs m rule: read_questions_lines.induct)
  case (1 i questions mapping)
  then show ?case by simp
next
  case (2 i lines rest questions mapping)
  from "2.prems" have len: "\<not> length (split_sep (CHR ''|'') lines) \<le> 1"
    by (auto simp: Let_def split: if_splits)
  from "2.prems" len have rec:
    "read_questions_lines (Suc i) rest (questions @ [(int i, strip (split_sep (CHR ''|'') lines ! 0))])
       (mapping(int i \<mapsto> strip (split_sep (CHR ''|'') lines ! 1))) = Inr (qs', m')"
    by (simp add: Let_def)
  from "2.IH"[OF refl refl len rec] show ?case
  proof -
    have iv: "{i..<i + length (lines # rest)} = insert i {Suc i..<Suc i + length rest}"
      by auto
    have up: "[i..<i + length (lines # rest)] = i # [Suc i..<Suc i + length rest]"
      by (subst upt_conv_Cons) simp_all
    assume "map fst qs' = map fst (questions @ [(int i, strip (split_sep (CHR ''|'') lines ! 0))]) @
        map int [Suc i..<Suc i + length rest] \<and>
      dom m' = dom (mapping(int i \<mapsto> strip (split_sep (CHR ''|'') lines ! 1))) \<union>
        int ` {Suc i..<Suc i + length rest}"
    then show ?thesis
      unfolding iv up by (simp del: upt_Suc)
  qed
qed

lemma ask_questions_loop_zero:
  "fst ` set qs \<subseteq> dom mapping \<Longrightarrow> distinct (map fst qs) \<Longrightarrow>
   fst ` set qs \<inter> fst ` set rq = {} \<Longrightarrow>
   \<exists>rc' out'. ask_questions_loop qs mapping rq rc out = Inr (rq @ map (\<lambda>(i, q). (i, 0)) qs, rc', out') \<and>
     (list_all (\<lambda>(c, v). v = 0) rc \<longrightarrow> list_all (\<lambda>(c, v). v = 0) rc') \<and>
     fst ` set rc' = fst ` set rc \<union> (\<lambda>i. the (mapping i)) ` fst ` set qs"
proof (induction qs mapping rq rc out rule: ask_questions_loop.induct)
  case (1 mapping result_q result_c out)
  then show ?case by simp
next
  case (2 idx question questions mapping rq rc out)
  from "2.prems" obtain category where cat: "mapping idx = Some category" by auto
  have fresh: "idx \<notin> fst ` set rq" using "2.prems" by auto
  have upd: "AList.update idx 0 rq = rq @ [(idx, 0)]" using fresh by (rule update_fresh)
  have p1: "fst ` set questions \<subseteq> dom mapping" using "2.prems" by auto
  have p2: "distinct (map fst questions)" using "2.prems" by auto
  have p3: "fst ` set questions \<inter> fst ` set (AList.update idx 0 rq) = {}"
    using "2.prems" by (auto simp: upd)
  from "2.IH"[OF refl refl cat p1 p2 p3]
  show ?case using cat
    by (auto simp: upd add_to_category_keys dest: add_to_category_zero)
qed


text \<open>
  Claim C10. In the interactive script \<open>ask_questions\<close> reads nothing: for every catalog
  that \<open>read_questions\<close> returns, it succeeds, records the answer \<open>0\<close> for every
  question id of the catalog, in catalog order, and every total of a category is \<open>0\<close>;
  the categories with a total are those of the catalog.
\<close>

theorem ask_questions_all_zero:
  assumes "read_questions fs filename = Inr (questions, mapping)"
  shows "\<exists>rq rc out'.
           ask_questions now questions scorings mapping out = Inr (rq, rc, now, out') \<and>
           rq = map (\<lambda>(idx, question). (idx, 0)) questions \<and>
           list_all (\<lambda>(category, total). total = 0) rc \<and>
           fst ` set rc = ran mapping"
proof -
  from assms obtain infile where
    lines: "read_questions_lines 0 infile [] Map.empty = Inr (questions, mapping)"
    by (auto simp: read_questions_def split: sum.splits)
  from read_questions_lines_ids[OF lines]
  have ids: "map fst questions = map int [0..<length infile]"
    and dm: "dom mapping = int ` {0..<length infile}"
    by simp_all
  have keys: "fst ` set questions = dom mapping"
  proof -
    have "fst ` set questions = set (map fst questions)" by simp
    also have "\<dots> = int ` {0..<length infile}" unfolding ids by simp
    finally show ?thesis using dm by simp
  qed
  have dist: "distinct (map fst questions)"
    unfolding ids by (simp add: distinct_map inj_on_def)
  have "fst ` set questions \<subseteq> dom mapping" using keys by simp
  from ask_questions_loop_zero[OF this dist, of "[]" "[]" out]
  obtain rc out' where
    loop: "ask_questions_loop questions mapping [] [] out =
             Inr (map (\<lambda>(i, q). (i, 0)) questions, rc, out')"
    and zero: "list_all (\<lambda>(c, v). v = 0) rc"
    and cats: "fst ` set rc = (\<lambda>i. the (mapping i)) ` fst ` set questions"
    by auto
  have "(\<lambda>i. the (mapping i)) ` dom mapping = ran mapping"
    by (auto simp: ran_def dom_def image_iff) (metis option.sel)
  with cats keys have "fst ` set rc = ran mapping" by simp
  with loop zero show ?thesis
    by (simp add: ask_questions_def)
qed

theorem ask_questions_all_zero_witness:
  "\<exists>questions mapping.
     read_questions [''questions.txt'' \<mapsto> ''Q0 | mental'' @ [CHR 0x0A] @ ''Q1|technique'']
       ''questions.txt'' = Inr (questions, mapping) \<and>
     questions = [(0, ''Q0''), (1, ''Q1'')] \<and>
     (\<exists>rc out'.
        ask_questions \<lparr>year = 2017, month = 3, day = 9, hour = 7, minute = 5, second = 0,
            microsecond = 1234\<rparr> questions [] mapping [] =
          Inr ([(0, 0), (1, 0)], rc,
               \<lparr>year = 2017, month = 3, day = 9, hour = 7, minute = 5, second = 0,
                  microsecond = 1234\<rparr>, out') \<and>
        list_all (\<lambda>(category, total). total = 0) rc \<and>
        fst ` set rc = ran mapping)"
proof -
  have h: "read_questions [''questions.txt'' \<mapsto> ''Q0 | mental'' @ [CHR 0x0A] @ ''Q1|technique'']
       ''questions.txt'' =
     Inr ([(0, ''Q0''), (1, ''Q1'')], [0 \<mapsto> ''mental'', 1 \<mapsto> ''technique''])"
    by (simp add: read_questions_def open_r_def strip_def isspace_def)
  show ?thesis
    using ask_questions_all_zero[OF h] h by simp
qed

subsection \<open>\<open>generate_rst_table\<close>\<close>

lemma join_framed_aux:
  "join sep (x # xs @ [[]]) = x @ concat (map (\<lambda>y. sep @ y) xs) @ sep"
  by (induction xs arbitrary: x) simp_all

lemma join_framed:
  "join sep ([[]] @ xs @ [[]]) = concat (map (\<lambda>y. sep @ y) xs) @ sep"
  using join_framed_aux[of sep "[]" xs] by simp

lemma length_center: "length s \<le> w \<Longrightarrow> length (center w s) = w"
  by (simp add: center_def Let_def)

lemma length_framed:
  "length (concat (map (\<lambda>y. sep @ y) xs)) = sum_list (map length xs) + length sep * length xs"
  by (induction xs) simp_all

lemma length_hline: "length (hline col_len) = sum_list col_len + length col_len + 1"
proof -
  let ?cells = "map (\<lambda>col. replicate col (CHR ''-'')) col_len"
  have cells: "map length ?cells = col_len"
    by (induction col_len) simp_all
  have "length (hline col_len) =
      (sum_list (map length ?cells) + length ''+'' * length ?cells) + length ''+''"
    unfolding hline_def join_framed length_append length_framed by (rule refl)
  then show ?thesis unfolding cells by simp
qed

lemma map_length_center:
  "length row = length col_len \<Longrightarrow> \<forall>j<length col_len. length (row ! j) \<le> col_len ! j \<Longrightarrow>
   map length (map (\<lambda>(w, col). center w col) (zip col_len row)) = col_len"
  by (rule nth_equalityI) (simp_all add: length_center)

lemma length_row_line:
  assumes "length row = length col_len" and "\<forall>j<length col_len. length (row ! j) \<le> col_len ! j"
  shows "length (row_line col_len row) = sum_list col_len + length col_len + 1"
proof -
  let ?cells = "map (\<lambda>(w, col). center w col) (zip col_len row)"
  have cells: "map length ?cells = col_len"
    using assms by (rule map_length_center)
  have n: "length ?cells = length col_len" using assms(1) by simp
  have "length (row_line col_len row) =
      (sum_list (map length ?cells) + length ''|'' * length ?cells) + length ''|''"
    unfolding row_line_def join_framed length_append length_framed by (rule refl)
  then show ?thesis unfolding cells n by simp
qed

lemma col_len_row_spec:
  "i + length row \<le> length cl \<Longrightarrow>
   \<exists>cl'. col_len_row i row cl = Inr cl' \<and> length cl' = length cl \<and>
     (\<forall>j<length cl. cl' ! j =
        (if i \<le> j \<and> j < i + length row then max (cl ! j) (length (row ! (j - i)) + 2) else cl ! j))"
proof (induction row arbitrary: i cl)
  case Nil
  then show ?case by simp
next
  case (Cons col row)
  define cl1 where "cl1 = (if int (length col) \<ge> int (cl ! i) - 2 then cl[i := length col + 2] else cl)"
  have len1: "length cl1 = length cl" by (simp add: cl1_def)
  have i_lt: "i < length cl" using Cons.prems by simp
  have at_i: "cl1 ! i = max (cl ! i) (length col + 2)"
    using i_lt by (auto simp: cl1_def)
  have other: "\<And>j. j \<noteq> i \<Longrightarrow> cl1 ! j = cl ! j"
    by (simp add: cl1_def)
  have "Suc i + length row \<le> length cl1" using Cons.prems len1 by simp
  from Cons.IH[OF this] obtain cl' where
    r: "col_len_row (Suc i) row cl1 = Inr cl'" and l: "length cl' = length cl1"
    and v: "\<forall>j<length cl1. cl' ! j =
        (if Suc i \<le> j \<and> j < Suc i + length row
         then max (cl1 ! j) (length (row ! (j - Suc i)) + 2) else cl1 ! j)"
    by blast
  have "col_len_row i (col # row) cl = Inr cl'"
    using i_lt r by (simp add: cl1_def)
  moreover have "length cl' = length cl" using l len1 by simp
  moreover have "\<forall>j<length cl. cl' ! j =
        (if i \<le> j \<and> j < i + length (col # row)
         then max (cl ! j) (length ((col # row) ! (j - i)) + 2) else cl ! j)"
  proof (intro allI impI)
    fix j assume j: "j < length cl"
    show "cl' ! j = (if i \<le> j \<and> j < i + length (col # row)
         then max (cl ! j) (length ((col # row) ! (j - i)) + 2) else cl ! j)"
    proof (cases "j = i")
      case True
      then show ?thesis using v j len1 at_i by simp
    next
      case False
      then have "cl1 ! j = cl ! j" by (rule other)
      moreover have "Suc i \<le> j \<Longrightarrow> (col # row) ! (j - i) = row ! (j - Suc i)"
        by (simp add: Suc_diff_le)
      ultimately show ?thesis using v j len1 False by auto
    qed
  qed
  ultimately show ?case by blast
qed

lemma Max_insert_max:
  "finite S \<Longrightarrow> Max (insert (max a b) S) = Max (insert a (insert b S))"
  by (cases "S = {}") (simp_all add: max.assoc)

lemma col_len_table_spec:
  "\<forall>row\<in>set table. length row = length cl \<Longrightarrow>
   \<exists>cl'. col_len_table table cl = Inr cl' \<and> length cl' = length cl \<and>
     (\<forall>j<length cl. cl' ! j = Max (insert (cl ! j) ((\<lambda>row. length (row ! j) + 2) ` set table)))"
proof (induction table arbitrary: cl)
  case Nil
  then show ?case by simp
next
  case (Cons row table)
  have "0 + length row \<le> length cl" using Cons.prems by simp
  from col_len_row_spec[OF this] obtain cl1 where
    r: "col_len_row 0 row cl = Inr cl1" and l: "length cl1 = length cl"
    and v: "\<forall>j<length cl. cl1 ! j = max (cl ! j) (length (row ! j) + 2)"
    using Cons.prems by auto
  have "\<forall>row\<in>set table. length row = length cl1" using Cons.prems l by simp
  from Cons.IH[OF this] obtain cl' where
    t: "col_len_table table cl1 = Inr cl'" and l': "length cl' = length cl1"
    and v': "\<forall>j<length cl1. cl' ! j = Max (insert (cl1 ! j) ((\<lambda>row. length (row ! j) + 2) ` set table))"
    by blast
  have "col_len_table (row # table) cl = Inr cl'" using r t by simp
  moreover have "length cl' = length cl" using l l' by simp
  moreover have "\<forall>j<length cl. cl' ! j =
      Max (insert (cl ! j) ((\<lambda>row. length (row ! j) + 2) ` set (row # table)))"
    using v v' l by (simp add: Max_insert_max)
  ultimately show ?case by blast
qed


lemma Max_plus2:
  assumes "finite S"
  shows "Max (insert (a + 2) ((\<lambda>x. f x + 2) ` S)) = Max (insert a (f ` S)) + (2::nat)"
proof -
  have "mono (\<lambda>x::nat. x + 2)" by (simp add: mono_def)
  from mono_Max_commute[OF this, of "insert a (f ` S)"] assms
  have "Max (insert a (f ` S)) + 2 = Max ((\<lambda>x. x + 2) ` insert a (f ` S))" by simp
  also have "(\<lambda>x. x + 2) ` insert a (f ` S) = insert (a + 2) ((\<lambda>x. f x + 2) ` S)"
    by (simp add: image_image)
  finally show ?thesis by simp
qed

lemma col_len_table_max:
  assumes "\<forall>row\<in>set table. length row = length headings"
  shows "\<exists>col_len. col_len_table table (map (\<lambda>col. length col + 2) headings) = Inr col_len \<and>
           length col_len = length headings \<and>
           (\<forall>j<length headings.
              col_len ! j =
                Max (insert (length (headings ! j)) ((\<lambda>row. length (row ! j)) ` set table)) + 2)"
proof -
  let ?cl = "map (\<lambda>col. length col + 2) headings"
  have "\<forall>row\<in>set table. length row = length ?cl" using assms by simp
  from col_len_table_spec[OF this] obtain cl' where
    t: "col_len_table table ?cl = Inr cl'" and l: "length cl' = length ?cl"
    and v: "\<forall>j<length ?cl. cl' ! j = Max (insert (?cl ! j) ((\<lambda>row. length (row ! j) + 2) ` set table))"
    by blast
  have "\<forall>j<length headings. cl' ! j =
      Max (insert (length (headings ! j)) ((\<lambda>row. length (row ! j)) ` set table)) + 2"
  proof (intro allI impI)
    fix j assume j: "j < length headings"
    then have "cl' ! j =
        Max (insert (length (headings ! j) + 2) ((\<lambda>row. length (row ! j) + 2) ` set table))"
      using v by simp
    also have "\<dots> = Max (insert (length (headings ! j)) ((\<lambda>row. length (row ! j)) ` set table)) + 2"
      by (rule Max_plus2) simp
    finally show "cl' ! j =
        Max (insert (length (headings ! j)) ((\<lambda>row. length (row ! j)) ` set table)) + 2" .
  qed
  with t l show ?thesis by simp
qed

lemma col_len_bounds:
  assumes "col_len ! j = Max (insert (length (headings ! j)) ((\<lambda>row. length (row ! j)) ` set table)) + 2"
  shows "length (headings ! j) + 2 \<le> col_len ! j"
    and "\<forall>row\<in>set table. length (row ! j) + 2 \<le> col_len ! j"
  unfolding assms by simp_all

lemma generate_rst_table_unfold:
  assumes "col_len_table table (map (\<lambda>col. length col + 2) headings) = Inr col_len"
    and "col_len \<noteq> []"
  shows "generate_rst_table table title headings =
     Inr ([''+'' @ replicate (length col_len + sum_list col_len - 1) (CHR ''-'') @ ''+'',
           ''|'' @ ljust (length col_len + sum_list col_len - 1) title @ ''|'',
           hline col_len, row_line col_len headings,
           map (\<lambda>c. if c = CHR ''-'' then CHR ''='' else c) (hline col_len)] @
          concat (map (\<lambda>row. [row_line col_len row, hline col_len]) table))"
proof -
  have pos: "1 \<le> length col_len" using assms(2) by (cases col_len) simp_all
  then have w: "\<not> int (length col_len) + int (sum_list col_len) - 1 < 0" by linarith
  have n: "nat (int (length col_len) + int (sum_list col_len) - 1) = length col_len + sum_list col_len - 1"
    using pos by linarith
  show ?thesis
    unfolding generate_rst_table_def assms(1) using w n by (simp add: Let_def)
qed

text \<open>
  Claim C4. For rows of the arity of the headings, the loop of \<open>generate_rst_table\<close>
  ends with one width per column, and the width of a column is the larger of the length
  of its heading and the length of its longest cell, plus 2; so it is at least the
  length of the heading plus 2 and at least the length of every cell of the column
  plus 2. These widths are the ones the table is drawn with.
\<close>

theorem generate_rst_table_col_len:
  assumes "\<forall>row\<in>set table. length row = length headings"
  shows "\<exists>col_len.
           col_len_table table (map (\<lambda>col. length col + 2) headings) = Inr col_len \<and>
           length col_len = length headings \<and>
           (\<forall>j<length headings.
              col_len ! j =
                Max (insert (length (headings ! j)) ((\<lambda>row. length (row ! j)) ` set table)) + 2 \<and>
              length (headings ! j) + 2 \<le> col_len ! j \<and>
              (\<forall>row\<in>set table. length (row ! j) + 2 \<le> col_len ! j)) \<and>
           (headings \<noteq> [] \<longrightarrow>
              (\<exists>lines. generate_rst_table table title headings = Inr lines \<and>
                 lines ! 2 = hline col_len))"
proof -
  from col_len_table_max[OF assms] obtain col_len where
    t: "col_len_table table (map (\<lambda>col. length col + 2) headings) = Inr col_len"
    and l: "length col_len = length headings"
    and v: "\<forall>j<length headings. col_len ! j =
        Max (insert (length (headings ! j)) ((\<lambda>row. length (row ! j)) ` set table)) + 2"
    by blast
  have b: "\<forall>j<length headings. length (headings ! j) + 2 \<le> col_len ! j \<and>
      (\<forall>row\<in>set table. length (row ! j) + 2 \<le> col_len ! j)"
    using v col_len_bounds[of col_len _ headings table] by blast
  have g: "headings \<noteq> [] \<longrightarrow>
      (\<exists>lines. generate_rst_table table title headings = Inr lines \<and> lines ! 2 = hline col_len)"
  proof
    assume "headings \<noteq> []"
    then have "col_len \<noteq> []" using l by auto
    from generate_rst_table_unfold[OF t this, of title]
    show "\<exists>lines. generate_rst_table table title headings = Inr lines \<and> lines ! 2 = hline col_len"
      by simp
  qed
  from t l v b g show ?thesis by blast
qed

theorem generate_rst_table_col_len_witness:
  "\<exists>col_len.
     col_len_table [[''0'', ''Do you?'', ''2''], [''11'', ''Are you sure?'', ''3'']]
       (map (\<lambda>col. length col + 2) [''ID'', ''Question'', ''Answer'']) = Inr col_len \<and>
     col_len = [4, 15, 8] \<and>
     (\<forall>j<3. col_len ! j =
         Max (insert (length ([''ID'', ''Question'', ''Answer''] ! j))
               ((\<lambda>row. length (row ! j)) ` set [[''0'', ''Do you?'', ''2''], [''11'', ''Are you sure?'', ''3'']])) + 2)"
proof -
  have h: "\<forall>row\<in>set [[''0'', ''Do you?'', ''2''], [''11'', ''Are you sure?'', ''3'']].
      length row = length [''ID'', ''Question'', ''Answer'']"
    by simp
  have e: "col_len_table [[''0'', ''Do you?'', ''2''], [''11'', ''Are you sure?'', ''3'']]
       (map (\<lambda>col. length col + 2) [''ID'', ''Question'', ''Answer'']) = Inr [4, 15, 8]"
    by code_simp
  show ?thesis
    using generate_rst_table_col_len[OF h, of "''T''"] e by simp
qed


lemma length_ljust: "length s \<le> w \<Longrightarrow> length (ljust w s) = w"
  by (simp add: ljust_def)

lemma generate_rst_table_lines:
  assumes "generate_rst_table table title headings =
     Inr ([topline, str_header, h, r, h'] @ concat (map (\<lambda>row. [f row, h]) table))"
    and "P topline" and "P str_header" and "P h" and "P r" and "P h'"
    and "\<forall>row\<in>set table. P (f row)"
  shows "\<exists>lines. generate_rst_table table title headings = Inr lines \<and> (\<forall>l\<in>set lines. P l)"
  using assms by auto

text \<open>
  Claim C9. For rows of the arity of the headings and a title that is not longer than
  the total width \<open>width\<close> computed from the column widths, \<open>generate_rst_table\<close>
  returns a table, and every line of it has the same length: the sum of the column
  widths plus the number of columns plus one.
\<close>

theorem generate_rst_table_line_lengths:
  assumes "\<forall>row\<in>set table. length row = length headings"
    and "col_len_table table (map (\<lambda>col. length col + 2) headings) = Inr col_len"
    and "int (length title) \<le> int (length col_len) + int (sum_list col_len) - 1"
  shows "\<exists>lines. generate_rst_table table title headings = Inr lines \<and>
           (\<forall>l\<in>set lines. length l = sum_list col_len + length col_len + 1)"
proof -
  from col_len_table_max[OF assms(1)] assms(2)
  have l: "length col_len = length headings"
    and v: "\<forall>j<length headings. col_len ! j =
        Max (insert (length (headings ! j)) ((\<lambda>row. length (row ! j)) ` set table)) + 2"
    by auto
  have ne: "col_len \<noteq> []" using assms(3) by auto
  then have pos: "1 \<le> length col_len" by (cases col_len) simp_all
  have hd_le: "\<forall>j<length col_len. length (headings ! j) \<le> col_len ! j"
  proof (intro allI impI)
    fix j assume "j < length col_len"
    then have "length (headings ! j) + 2 \<le> col_len ! j"
      using col_len_bounds(1)[of col_len j headings table] v l by simp
    then show "length (headings ! j) \<le> col_len ! j" by simp
  qed
  have row_le: "\<forall>row\<in>set table. \<forall>j<length col_len. length (row ! j) \<le> col_len ! j"
  proof (intro ballI allI impI)
    fix row j assume "row \<in> set table" and "j < length col_len"
    then have "length (row ! j) + 2 \<le> col_len ! j"
      using col_len_bounds(2)[of col_len j headings table] v l by simp
    then show "length (row ! j) \<le> col_len ! j" by simp
  qed
  have title: "length title \<le> length col_len + sum_list col_len - 1"
    using assms(3) pos by linarith
  show ?thesis
  proof (rule generate_rst_table_lines[OF generate_rst_table_unfold[OF assms(2) ne]])
    show "length (''+'' @ replicate (length col_len + sum_list col_len - 1) (CHR ''-'') @ ''+'') =
        sum_list col_len + length col_len + 1"
      using pos by simp
    show "length (''|'' @ ljust (length col_len + sum_list col_len - 1) title @ ''|'') =
        sum_list col_len + length col_len + 1"
      using pos length_ljust[OF title] by simp
    show "length (hline col_len) = sum_list col_len + length col_len + 1"
      by (rule length_hline)
    show "length (row_line col_len headings) = sum_list col_len + length col_len + 1"
      using l hd_le by (simp add: length_row_line)
    show "length (map (\<lambda>c. if c = CHR ''-'' then CHR ''='' else c) (hline col_len)) =
        sum_list col_len + length col_len + 1"
      by (simp add: length_hline)
    show "\<forall>row\<in>set table. length (row_line col_len row) = sum_list col_len + length col_len + 1"
      using assms(1) l row_le by (simp add: length_row_line)
  qed
qed

theorem generate_rst_table_line_lengths_witness:
  "\<exists>lines.
     generate_rst_table [[''0'', ''Do you?'', ''2''], [''11'', ''Are you sure?'', ''3'']]
       ''Answers for questions'' [''ID'', ''Question'', ''Answer''] = Inr lines \<and>
     (\<forall>l\<in>set lines. length l = 31)"
proof -
  have h: "\<forall>row\<in>set [[''0'', ''Do you?'', ''2''], [''11'', ''Are you sure?'', ''3'']].
      length row = length [''ID'', ''Question'', ''Answer'']"
    by simp
  have e: "col_len_table [[''0'', ''Do you?'', ''2''], [''11'', ''Are you sure?'', ''3'']]
       (map (\<lambda>col. length col + 2) [''ID'', ''Question'', ''Answer'']) = Inr [4, 15, 8]"
    by code_simp
  have t: "int (length ''Answers for questions'') \<le>
      int (length [4, 15, 8 :: nat]) + int (sum_list [4, 15, 8]) - 1"
    by simp
  show ?thesis
    using generate_rst_table_line_lengths[OF h e t] by simp
qed

subsection \<open>Border glyphs\<close>

lemma border_glyphs_Nil [simp]: "border_glyphs [] = 0"
  by (simp add: border_glyphs_def)

lemma border_glyphs_Cons [simp]:
  "border_glyphs (c # s) = (if c = CHR ''|'' \<or> c = CHR ''+'' then 1 else 0) + border_glyphs s"
  by (simp add: border_glyphs_def)

lemma border_glyphs_append [simp]:
  "border_glyphs (a @ b) = border_glyphs a + border_glyphs b"
  by (simp add: border_glyphs_def)

lemma border_glyphs_replicate:
  "c \<noteq> CHR ''|'' \<Longrightarrow> c \<noteq> CHR ''+'' \<Longrightarrow> border_glyphs (replicate n c) = 0"
  by (simp add: border_glyphs_def)

lemma border_glyphs_center: "border_glyphs (center w s) = border_glyphs s"
  by (simp add: center_def Let_def border_glyphs_replicate)

lemma border_glyphs_ljust: "border_glyphs (ljust w s) = border_glyphs s"
  by (simp add: ljust_def border_glyphs_replicate)

lemma border_glyphs_double: 
  "border_glyphs (map (\<lambda>c. if c = CHR ''-'' then CHR ''='' else c) s) = border_glyphs s"
  by (induction s) (simp_all add: border_glyphs_def)

lemma border_glyphs_framed:
  "border_glyphs (concat (map (\<lambda>y. sep @ y) xs)) =
     sum_list (map border_glyphs xs) + border_glyphs sep * length xs"
  by (induction xs) simp_all

lemma border_glyphs_hline: "border_glyphs (hline col_len) = length col_len + 1"
proof -
  let ?cells = "map (\<lambda>col. replicate col (CHR ''-'')) col_len"
  have cells: "map border_glyphs ?cells = map (\<lambda>col. 0) col_len"
    by (simp add: border_glyphs_replicate)
  have one: "border_glyphs ''+'' = 1" by (simp add: border_glyphs_def)
  have "border_glyphs (hline col_len) =
      (sum_list (map border_glyphs ?cells) + border_glyphs ''+'' * length ?cells) + border_glyphs ''+''"
    unfolding hline_def join_framed border_glyphs_append border_glyphs_framed by (rule refl)
  then show ?thesis unfolding cells one by simp
qed

lemma border_glyphs_row_line:
  assumes "length row = length col_len" and "\<forall>cell\<in>set row. border_glyphs cell = 0"
  shows "border_glyphs (row_line col_len row) = length col_len + 1"
proof -
  let ?cells = "map (\<lambda>(w, col). center w col) (zip col_len row)"
  have "\<forall>p\<in>set (zip col_len row). border_glyphs (snd p) = 0"
    using assms(2) by (auto dest: set_zip_rightD)
  then have cells: "map border_glyphs ?cells = map (\<lambda>p. 0) (zip col_len row)"
    by (auto simp: border_glyphs_center)
  have n: "length ?cells = length col_len" using assms(1) by simp
  have one: "border_glyphs ''|'' = 1" by (simp add: border_glyphs_def)
  have "border_glyphs (row_line col_len row) =
      (sum_list (map border_glyphs ?cells) + border_glyphs ''|'' * length ?cells) + border_glyphs ''|''"
    unfolding row_line_def join_framed border_glyphs_append border_glyphs_framed by (rule refl)
  then show ?thesis unfolding cells n one by simp
qed

text \<open>
  Claim C5, as the code has it. The top border and the title line are drawn across the
  whole table: the top border holds two border glyphs and the title line two besides
  those of the title itself. Every other line (the rules, the heading row and the data
  rows) holds one border glyph more than there are columns, as long as no heading and
  no cell holds a border glyph of its own.
\<close>

theorem generate_rst_table_border_glyphs:
  assumes "\<forall>row\<in>set table. length row = length headings"
    and "headings \<noteq> []"
    and "\<forall>cell\<in>set headings. border_glyphs cell = 0"
    and "\<forall>row\<in>set table. \<forall>cell\<in>set row. border_glyphs cell = 0"
  shows "\<exists>topline str_header rest.
           generate_rst_table table title headings = Inr (topline # str_header # rest) \<and>
           border_glyphs topline = 2 \<and>
           border_glyphs str_header = 2 + border_glyphs title \<and>
           length rest = 3 + 2 * length table \<and>
           (\<forall>l\<in>set rest. border_glyphs l = length headings + 1)"
proof -
  from col_len_table_max[OF assms(1)] obtain col_len where
    t: "col_len_table table (map (\<lambda>col. length col + 2) headings) = Inr col_len"
    and l: "length col_len = length headings"
    by blast
  have ne: "col_len \<noteq> []" using assms(2) l by auto
  have one: "border_glyphs ''+'' = 1" "border_glyphs ''|'' = 1"
    by (simp_all add: border_glyphs_def)
  have len: "length (concat (map (\<lambda>row. [row_line col_len row, hline col_len]) table)) =
      2 * length table"
    by (induction table) simp_all
  have rows: "\<forall>row\<in>set table. border_glyphs (row_line col_len row) = length headings + 1"
    using assms(1,4) l by (simp add: border_glyphs_row_line)
  have hd: "border_glyphs (row_line col_len headings) = length headings + 1"
    using assms(3) l by (simp add: border_glyphs_row_line)
  show ?thesis
    unfolding generate_rst_table_unfold[OF t ne]
    using rows hd len l
    by (auto simp: one border_glyphs_replicate border_glyphs_ljust border_glyphs_hline
        border_glyphs_double simp del: replicate.simps)
qed

theorem generate_rst_table_border_glyphs_witness:
  "\<exists>topline str_header rest.
     generate_rst_table [[''0'', ''Do you?'', ''2'']] ''Answers'' [''ID'', ''Question'', ''Answer''] =
       Inr (topline # str_header # rest) \<and>
     border_glyphs topline = 2 \<and> border_glyphs str_header = 2 \<and> length rest = 5 \<and>
     (\<forall>l\<in>set rest. border_glyphs l = length [''ID'', ''Question'', ''Answer''] + 1)"
proof -
  have h1: "\<forall>row\<in>set [[''0'', ''Do you?'', ''2'']]. length row = length [''ID'', ''Question'', ''Answer'']"
    by simp
  have h2: "[''ID'', ''Question'', ''Answer''] \<noteq> []" by simp
  have h3: "\<forall>cell\<in>set [''ID'', ''Question'', ''Answer'']. border_glyphs cell = 0"
    by (simp add: border_glyphs_def)
  have h4: "\<forall>row\<in>set [[''0'', ''Do you?'', ''2'']]. \<forall>cell\<in>set row. border_glyphs cell = 0"
    by (simp add: border_glyphs_def)
  have t: "border_glyphs ''Answers'' = 0" by (simp add: border_glyphs_def)
  show ?thesis
    using generate_rst_table_border_glyphs[OF h1 h2 h3 h4, of "''Answers''"] t by simp
qed

text \<open>
  Claim C5 as stated fails on a table of three columns: its top border and its title
  line hold two border glyphs, not four, and the data row holds five, since the
  question in it has a \<open>+\<close> of its own.
\<close>

theorem generate_rst_table_border_glyphs_counterexample:
  "generate_rst_table [[''0'', ''Core + legs?'', ''2'']] ''Answers'' [''ID'', ''Question'', ''Answer''] =
     Inr [''+----------------------------+'',
          ''|Answers                     |'',
          ''+----+--------------+--------+'',
          ''| ID |   Question   | Answer |'',
          ''+====+==============+========+'',
          ''| 0  | Core + legs? |   2    |'',
          ''+----+--------------+--------+''] \<and>
   length [''0'', ''Core + legs?'', ''2''] = length [''ID'', ''Question'', ''Answer''] \<and>
   map border_glyphs
     [''+----------------------------+'',
      ''|Answers                     |'',
      ''+----+--------------+--------+'',
      ''| ID |   Question   | Answer |'',
      ''+====+==============+========+'',
      ''| 0  | Core + legs? |   2    |'',
      ''+----+--------------+--------+''] = [2, 2, 4, 4, 4, 5, 4] \<and>
   length [''ID'', ''Question'', ''Answer''] + 1 = 4"
  by code_simp

subsection \<open>Digits and numbers\<close>

lemma less_10_cases:
  "d < 10 \<Longrightarrow> d = 0 \<or> d = 1 \<or> d = 2 \<or> d = 3 \<or> d = 4 \<or> d = 5 \<or> d = 6 \<or> d = 7 \<or> d = 8 \<or> d = (9::nat)"
  by arith

lemma isdigit_digit_char: "d < 10 \<Longrightarrow> isdigit (digit_char d)"
  by (drule less_10_cases) (auto simp: isdigit_def digit_char_def)

lemma digit_val_digit_char: "d < 10 \<Longrightarrow> digit_val (digit_char d) = d"
  by (drule less_10_cases) (auto simp: digit_val_def digit_char_def)

lemma digit_char_zero: "digit_char 0 = CHR ''0''"
  by (simp add: digit_char_def)

lemma digit_val_zero: "digit_val (CHR ''0'') = 0"
  by (simp add: digit_val_def)

lemma isdigit_not_space: "isdigit c \<Longrightarrow> \<not> isspace c"
  by (auto simp: isdigit_def isspace_def)

lemma isdigit_not_special:
  "isdigit c \<Longrightarrow> c \<noteq> CHR ''='' \<and> c \<noteq> CHR ''-'' \<and> c \<noteq> CHR ''+'' \<and> c \<noteq> CHR ''_'' \<and>
     c \<noteq> CHR '' '' \<and> c \<noteq> CHR ''.'' \<and> c \<noteq> CHR '':'' \<and> c \<noteq> CHR 0x0A \<and> c \<noteq> CHR 0x0D"
  by (auto simp: isdigit_def)

declare str_nat.simps [simp del]

lemma str_nat_digits: "list_all isdigit (str_nat n)"
proof (induction n rule: str_nat.induct)
  case (1 n)
  show ?case
  proof (cases "n < 10")
    case True
    then show ?thesis by (subst str_nat.simps) (simp add: isdigit_digit_char)
  next
    case False
    with 1 show ?thesis by (subst str_nat.simps) (simp add: isdigit_digit_char)
  qed
qed

lemma str_nat_nonempty: "str_nat n \<noteq> []"
  by (subst str_nat.simps) simp

lemma nat_of_digits_snoc: "nat_of_digits (ds @ [c]) = 10 * nat_of_digits ds + digit_val c"
  by (simp add: nat_of_digits_def)

lemma nat_of_digits_str_nat: "nat_of_digits (str_nat n) = n"
proof (induction n rule: str_nat.induct)
  case (1 n)
  show ?case
  proof (cases "n < 10")
    case True
    then show ?thesis
      by (subst str_nat.simps) (simp add: nat_of_digits_def digit_val_digit_char)
  next
    case False
    with 1 have "nat_of_digits (str_nat (n div 10)) = n div 10" by simp
    with False show ?thesis
      by (subst str_nat.simps) (simp add: nat_of_digits_snoc digit_val_digit_char)
  qed
qed

lemma str_nat_inj: "str_nat m = str_nat n \<Longrightarrow> m = n"
  by (metis nat_of_digits_str_nat)

lemma length_str_nat: "0 < w \<Longrightarrow> n < 10 ^ w \<Longrightarrow> length (str_nat n) \<le> w"
proof (induction w arbitrary: n)
  case 0
  then show ?case by simp
next
  case (Suc w)
  show ?case
  proof (cases "n < 10")
    case True
    then show ?thesis by (subst str_nat.simps) simp
  next
    case False
    then have w: "0 < w" using Suc.prems by (cases w) simp_all
    have "n div 10 < 10 ^ w" using Suc.prems by (simp add: less_mult_imp_div_less)
    from Suc.IH[OF w this] False show ?thesis by (subst str_nat.simps) simp
  qed
qed

lemma nat_of_digits_zeros: "nat_of_digits (replicate k (CHR ''0'') @ s) = nat_of_digits s"
  by (induction k) (simp_all add: nat_of_digits_def digit_val_zero)

lemma nat_of_digits_zfill: "nat_of_digits (zfill w (str_nat n)) = n"
  by (simp add: zfill_def nat_of_digits_zeros nat_of_digits_str_nat)

lemma zfill_digits: "list_all isdigit (zfill w (str_nat n))"
proof -
  have "isdigit (CHR ''0'')" by (simp add: isdigit_def)
  then show ?thesis
    using str_nat_digits[of n] by (auto simp: zfill_def list_all_iff)
qed

lemma length_zfill: "0 < w \<Longrightarrow> n < 10 ^ w \<Longrightarrow> length (zfill w (str_nat n)) = w"
  using length_str_nat[of w n] by (simp add: zfill_def)

subsection \<open>\<open>str\<close> and \<open>int\<close>\<close>

lemma split_sep_none: "c \<notin> set s \<Longrightarrow> split_sep c s = [s]"
  by (induction s) auto

lemma split_sep_first: "c \<notin> set a \<Longrightarrow> split_sep c (a @ c # b) = a # split_sep c b"
  by (induction a) auto

lemma strip_id: "s \<noteq> [] \<Longrightarrow> \<not> isspace (hd s) \<Longrightarrow> \<not> isspace (last s) \<Longrightarrow> strip s = s"
proof -
  assume a: "s \<noteq> []" "\<not> isspace (hd s)" "\<not> isspace (last s)"
  then have "dropWhile isspace s = s" by (cases s) simp_all
  moreover have "dropWhile isspace (rev s) = rev s"
    using a by (cases "rev s") (simp_all add: last_rev[symmetric] hd_rev)
  ultimately show ?thesis by (simp add: strip_def)
qed

lemma strip_no_space: "s \<noteq> [] \<Longrightarrow> \<forall>c\<in>set s. \<not> isspace c \<Longrightarrow> strip s = s"
  by (rule strip_id) simp_all

lemma digit_groups_digits: "ds \<noteq> [] \<Longrightarrow> list_all isdigit ds \<Longrightarrow> digit_groups ds = Some (nat_of_digits ds)"
proof -
  assume a: "ds \<noteq> []" "list_all isdigit ds"
  then have "CHR ''_'' \<notin> set ds"
    by (auto simp: list_all_iff dest: isdigit_not_special)
  then have "split_sep (CHR ''_'') ds = [ds]" by (rule split_sep_none)
  with a show ?thesis by (simp add: digit_groups_def)
qed

lemma str_int_chars: "c \<in> set (str_int i) \<Longrightarrow> isdigit c \<or> c = CHR ''-''"
  using str_nat_digits by (auto simp: str_int_def list_all_iff split: if_splits)

lemma str_int_nonempty: "str_int i \<noteq> []"
  by (simp add: str_int_def str_nat_nonempty)

lemma str_int_no_space: "c \<in> set (str_int i) \<Longrightarrow> \<not> isspace c"
  by (auto dest!: str_int_chars dest: isdigit_not_space simp: isspace_def)

lemma str_int_no_eq: "CHR ''='' \<notin> set (str_int i)"
  by (auto dest!: str_int_chars dest: isdigit_not_special)

lemma py_int_str_int: "py_int (str_int i) = Some i"
proof -
  have s: "strip (str_int i) = str_int i"
    by (rule strip_no_space) (auto simp: str_int_nonempty dest: str_int_no_space)
  show ?thesis
  proof (cases "i < 0")
    case True
    then show ?thesis
      unfolding py_int_def s
      by (simp add: str_int_def digit_groups_digits str_nat_nonempty str_nat_digits nat_of_digits_str_nat)
  next
    case False
    obtain c r where cr: "str_nat (nat i) = c # r"
      using str_nat_nonempty[of "nat i"] by (cases "str_nat (nat i)") auto
    have "isdigit c" using str_nat_digits[of "nat i"] cr by simp
    then have c: "c \<noteq> CHR ''-''" "c \<noteq> CHR ''+''" by (auto dest: isdigit_not_special)
    have "digit_groups (c # r) = Some (nat i)"
      using digit_groups_digits[of "str_nat (nat i)"] str_nat_digits[of "nat i"]
      by (simp add: cr[symmetric] str_nat_nonempty nat_of_digits_str_nat)
    with False c show ?thesis
      unfolding py_int_def s by (simp add: str_int_def cr)
  qed
qed

lemma str_int_inj: "str_int i = str_int j \<Longrightarrow> i = j"
  by (metis py_int_str_int option.inject)


subsection \<open>\<open>strftime\<close> and \<open>strptime\<close>\<close>

lemma takeWhile_digits:
  "list_all isdigit ds \<Longrightarrow> \<not> isdigit c \<Longrightarrow> takeWhile isdigit (ds @ c # r) = ds"
  by (induction ds) simp_all

lemma dropWhile_digits:
  "list_all isdigit ds \<Longrightarrow> \<not> isdigit c \<Longrightarrow> dropWhile isdigit (ds @ c # r) = c # r"
  by (induction ds) simp_all

lemma digit_field_zfill:
  assumes "v < 100" and "lo \<le> v" and "v \<le> hi2" and "\<not> isdigit c"
  shows "digit_field lo hi1 hi2 (zfill 2 (str_nat v) @ c # r) = Some (v, c # r)"
proof -
  have len: "length (zfill 2 (str_nat v)) = 2"
    using assms(1) by (simp add: length_zfill)
  show ?thesis
    unfolding digit_field_def
    using assms len
    by (simp add: takeWhile_digits dropWhile_digits zfill_digits nat_of_digits_zfill Let_def)
qed

lemma day_field_zfill:
  assumes "v < 100" and "1 \<le> v" and "v \<le> 31" and "\<not> isdigit c"
  shows "day_field (zfill 2 (str_nat v) @ c # r) = Some (v, c # r)"
proof -
  have len: "length (zfill 2 (str_nat v)) = 2"
    using assms(1) by (simp add: length_zfill)
  then obtain a b where ab: "zfill 2 (str_nat v) = [a, b]"
    by (cases "zfill 2 (str_nat v)") (auto simp: length_Suc_conv)
  have "isdigit a" using zfill_digits[of 2 v] ab by simp
  then have "a \<noteq> CHR '' ''" by (auto dest: isdigit_not_special)
  then have "day_field (zfill 2 (str_nat v) @ c # r) =
      digit_field 1 9 31 (zfill 2 (str_nat v) @ c # r)"
    by (simp add: day_field_def ab)
  then show ?thesis using assms by (simp add: digit_field_zfill)
qed

lemma length_str_nat_lower: "10 ^ k \<le> n \<Longrightarrow> k < length (str_nat n)"
proof (induction k arbitrary: n)
  case 0
  then show ?case using str_nat_nonempty[of n] by (cases "str_nat n") simp_all
next
  case (Suc k)
  have "(10::nat) \<le> 10 ^ Suc k" by simp
  with Suc.prems have ge: "\<not> n < 10" by linarith
  from Suc.prems have "10 ^ k \<le> n div 10" by (simp add: less_eq_div_iff_mult_less_eq)
  from Suc.IH[OF this] ge show ?case by (subst str_nat.simps) simp
qed

lemma year_field_str_nat:
  assumes "1000 \<le> y" and "y < 10000" and "\<not> isdigit c"
  shows "year_field (str_nat y @ c # r) = Some (y, c # r)"
proof -
  have "(10::nat) ^ 3 \<le> y" using assms(1) by simp
  from length_str_nat_lower[OF this] have lo: "3 < length (str_nat y)" .
  have "y < 10 ^ 4" using assms(2) by simp
  from length_str_nat[OF _ this] have hi: "length (str_nat y) \<le> 4" by simp
  from lo hi have len: "length (str_nat y) = 4" by simp
  show ?thesis
    unfolding year_field_def
    using assms len
    by (simp add: takeWhile_digits dropWhile_digits str_nat_digits nat_of_digits_str_nat Let_def)
qed

lemma fraction_field_zfill:
  assumes "f < 1000000"
  shows "fraction_field (zfill 6 (str_nat f)) = Some f"
proof -
  have len: "length (zfill 6 (str_nat f)) = 6"
    using assms by (simp add: length_zfill)
  then have "zfill 6 (str_nat f) \<noteq> []" by auto
  then show ?thesis
    unfolding fraction_field_def using len
    by (simp add: zfill_digits nat_of_digits_zfill)
qed

lemma not_digit_literals: "\<not> isdigit (CHR ''.'')" "\<not> isdigit (CHR ''-'')" "\<not> isdigit (CHR '':'')"
  by (simp_all add: isdigit_def)

lemma days_in_month_le: "days_in_month y m \<le> 31"
  by (simp add: days_in_month_def)

lemma strptime_strftime:
  assumes "valid_datetime t" and "1000 \<le> year t"
  shows "strptime (strftime t) = Some t"
proof -
  from assms have d: "day t < 100" "1 \<le> day t" "day t \<le> 31"
    using days_in_month_le[of "year t" "month t"] by (auto simp: valid_datetime_def)
  from assms have m: "month t < 100" "Suc 0 \<le> month t" "month t \<le> 12"
    by (auto simp: valid_datetime_def)
  from assms have y: "1000 \<le> year t" "year t < 10000" by (auto simp: valid_datetime_def)
  from assms have h: "hour t < 100" "0 \<le> hour t" "hour t \<le> 23"
    by (auto simp: valid_datetime_def)
  from assms have mi: "minute t < 100" "0 \<le> minute t" "minute t \<le> 59"
    by (auto simp: valid_datetime_def)
  from assms have s: "second t < 100" "0 \<le> second t" "second t \<le> 61"
    by (auto simp: valid_datetime_def)
  from assms have f: "microsecond t < 1000000" by (auto simp: valid_datetime_def)
  have t: "\<lparr>year = year t, month = month t, day = day t, hour = hour t, minute = minute t,
      second = second t, microsecond = microsecond t\<rparr> = t"
    by simp
  show ?thesis
    unfolding strptime_def strftime_def
    by (simp add: day_field_zfill[OF d] digit_field_zfill[OF m] year_field_str_nat[OF y]
        digit_field_zfill[OF h] digit_field_zfill[OF mi] digit_field_zfill[OF s]
        fraction_field_zfill[OF f] not_digit_literals literal_def t assms)
qed

lemma strftime_chars:
  "c \<in> set (strftime t) \<Longrightarrow> isdigit c \<or> c = CHR ''.'' \<or> c = CHR ''-'' \<or> c = CHR '':''"
  using zfill_digits[of 2 "day t"] zfill_digits[of 2 "month t"] str_nat_digits[of "year t"]
    zfill_digits[of 2 "hour t"] zfill_digits[of 2 "minute t"] zfill_digits[of 2 "second t"]
    zfill_digits[of 6 "microsecond t"]
  by (auto simp: strftime_def list_all_iff)

lemma strftime_no_space: "c \<in> set (strftime t) \<Longrightarrow> \<not> isspace c"
  by (auto dest!: strftime_chars dest: isdigit_not_space simp: isspace_def)

lemma strftime_no_eq: "CHR ''='' \<notin> set (strftime t)"
  by (auto dest!: strftime_chars dest: isdigit_not_special)

subsection \<open>Splitting and joining\<close>

lemma join_Cons: "join sep (x # xs) = x @ concat (map (\<lambda>y. sep @ y) xs)"
  by (induction xs arbitrary: x) simp_all

lemma concat_sep_shift:
  "x @ concat (map (\<lambda>y. sep @ y) (xs @ [z])) = concat (map (\<lambda>y. y @ sep) (x # xs)) @ z"
  by (induction xs arbitrary: x) simp_all

lemma split_ws_spaces: "\<forall>c\<in>set s. isspace c \<Longrightarrow> split_ws s = []"
  by (induction s) simp_all

lemma split_ws_word:
  "w \<noteq> [] \<Longrightarrow> \<forall>c\<in>set w. \<not> isspace c \<Longrightarrow> isspace d \<Longrightarrow>
   split_ws (w @ d # rest) = w # split_ws rest"
proof (induction w)
  case Nil
  then show ?case by simp
next
  case (Cons c w)
  show ?case
  proof (cases w)
    case Nil
    with Cons.prems show ?thesis by simp
  next
    case (Cons c' w')
    with Cons.IH Cons.prems have "split_ws (w @ d # rest) = w # split_ws rest" by simp
    with Cons Cons.prems show ?thesis by simp
  qed
qed

lemma split_ws_words:
  "\<forall>w\<in>set ws. w \<noteq> [] \<and> (\<forall>c\<in>set w. \<not> isspace c) \<Longrightarrow> isspace d \<Longrightarrow> \<forall>c\<in>set e. isspace c \<Longrightarrow>
   split_ws (concat (map (\<lambda>w. w @ [d]) ws) @ e) = ws"
  by (induction ws) (simp_all add: split_ws_spaces split_ws_word)

lemma split_ws_snoc_space: "isspace d \<Longrightarrow> split_ws (s @ [d]) = split_ws s"
  by (induction s rule: split_ws.induct) (auto simp: hd_append)

lemma split_ws_dropWhile: "split_ws (dropWhile isspace s) = split_ws s"
  by (induction s) simp_all

lemma split_ws_drop_trailing: "split_ws (rev (dropWhile isspace (rev s))) = split_ws s"
  by (induction s rule: rev_induct) (simp_all add: split_ws_snoc_space)

lemma split_ws_strip: "split_ws (strip s) = split_ws s"
  by (simp add: strip_def split_ws_drop_trailing split_ws_dropWhile)

subsection \<open>Lines of a file\<close>

lemma readlines_Nil_iff: "readlines s = [] \<longleftrightarrow> s = []"
  by (cases s) (auto split: list.splits)

lemma readlines_line:
  "CHR 0x0A \<notin> set body \<Longrightarrow> CHR 0x0D \<notin> set body \<Longrightarrow>
   readlines (body @ [CHR 0x0A]) = [body @ [CHR 0x0A]]"
  by (induction body) auto

lemma readlines_append:
  "old = [] \<or> last old = CHR 0x0A \<Longrightarrow> readlines (old @ new) = readlines old @ readlines new"
proof (induction old rule: readlines.induct)
  case 1
  then show ?case by simp
next
  case (2 c cs)
  show ?case
  proof (cases "c = CHR 0x0A")
    case True
    with 2 show ?thesis by (cases "cs = []") simp_all
  next
    case nl: False
    show ?thesis
    proof (cases "c = CHR 0x0D")
      case True
      show ?thesis
      proof (cases cs)
        case Nil
        with True "2.prems" show ?thesis by simp
      next
        case (Cons d ds)
        show ?thesis
        proof (cases "d = CHR 0x0A")
          case dn: True
          have "ds = [] \<or> last ds = CHR 0x0A" using "2.prems" Cons by (cases "ds = []") simp_all
          with "2.IH"(2)[OF nl True Cons dn] nl True Cons dn show ?thesis by simp
        next
          case dn: False
          have "cs = [] \<or> last cs = CHR 0x0A" using "2.prems" Cons by simp
          with "2.IH"(3)[OF nl True Cons dn] nl True Cons dn show ?thesis by simp
        qed
      qed
    next
      case cr: False
      have cs: "cs \<noteq> []" using "2.prems" nl by auto
      then have last: "cs = [] \<or> last cs = CHR 0x0A" using "2.prems" by simp
      obtain l ls where r: "readlines cs = l # ls"
        using cs readlines_Nil_iff[of cs] by (cases "readlines cs") auto
      from "2.IH"(4)[OF nl cr last] r nl cr show ?thesis by simp
    qed
  qed
qed


subsection \<open>\<open>store_results\<close>\<close>

lemma answer_token_chars:
  "c \<in> set (str_int k @ ''='' @ str_int v) \<Longrightarrow> isdigit c \<or> c = CHR ''-'' \<or> c = CHR ''=''"
  by (auto dest: str_int_chars)

lemma time_token_chars:
  "c \<in> set (''time='' @ strftime t) \<Longrightarrow>
   isdigit c \<or> c = CHR ''.'' \<or> c = CHR ''-'' \<or> c = CHR '':'' \<or> c = CHR ''='' \<or>
   c = CHR ''t'' \<or> c = CHR ''i'' \<or> c = CHR ''m'' \<or> c = CHR ''e''"
  by (auto dest: strftime_chars)

lemma token_char_plain:
  "isdigit c \<or> c = CHR ''.'' \<or> c = CHR ''-'' \<or> c = CHR '':'' \<or> c = CHR ''='' \<or>
   c = CHR ''t'' \<or> c = CHR ''i'' \<or> c = CHR ''m'' \<or> c = CHR ''e'' \<Longrightarrow>
   \<not> isspace c \<and> c \<noteq> CHR 0x0A \<and> c \<noteq> CHR 0x0D"
  by (auto simp: isspace_def isdigit_def)

lemma store_results_tokens_plain:
  assumes "w \<in> set ((''time='' @ strftime t) # map (\<lambda>key. str_int key @ ''='' @ str_int (f key)) ks)"
  shows "w \<noteq> [] \<and> (\<forall>c\<in>set w. \<not> isspace c \<and> c \<noteq> CHR 0x0A \<and> c \<noteq> CHR 0x0D)"
proof -
  from assms consider "w = ''time='' @ strftime t"
    | key where "w = str_int key @ ''='' @ str_int (f key)"
    by auto
  then show ?thesis
  proof cases
    case 1
    show ?thesis
    proof (intro conjI ballI)
      show "w \<noteq> []" using 1 by simp
      fix c assume "c \<in> set w"
      then have "c \<in> set (''time='' @ strftime t)" using 1 by simp
      from token_char_plain[OF time_token_chars[OF this]]
      show "\<not> isspace c" "c \<noteq> CHR 0x0A" "c \<noteq> CHR 0x0D" by simp_all
    qed
  next
    case 2
    show ?thesis
    proof (intro conjI ballI)
      show "w \<noteq> []" using 2 by simp
      fix c assume "c \<in> set w"
      then have "c \<in> set (str_int key @ ''='' @ str_int (f key))" using 2 by simp
      from answer_token_chars[OF this]
      have "isdigit c \<or> c = CHR ''.'' \<or> c = CHR ''-'' \<or> c = CHR '':'' \<or> c = CHR ''='' \<or>
          c = CHR ''t'' \<or> c = CHR ''i'' \<or> c = CHR ''m'' \<or> c = CHR ''e''"
        by blast
      from token_char_plain[OF this]
      show "\<not> isspace c" "c \<noteq> CHR 0x0A" "c \<noteq> CHR 0x0D" by simp_all
    qed
  qed
qed

lemma store_results_out_join:
  "join '' '' (store_results_out rq t) =
     concat (map (\<lambda>w. w @ '' '')
       ((''time='' @ strftime t) #
        map (\<lambda>key. str_int key @ ''='' @ str_int (the (map_of rq key))) (sort (map fst rq)))) @
     [CHR 0x0A]"
  unfolding store_results_out_def
  using concat_sep_shift[of "''time='' @ strftime t" "'' ''"
      "map (\<lambda>key. str_int key @ ''='' @ str_int (the (map_of rq key))) (sort (map fst rq))"
      "[CHR 0x0A]"]
  by (simp add: join_Cons)

lemma store_results_out_split:
  "split_ws (join '' '' (store_results_out rq t)) =
     (''time='' @ strftime t) #
     map (\<lambda>key. str_int key @ ''='' @ str_int (the (map_of rq key))) (sort (map fst rq))"
  unfolding store_results_out_join
proof (rule split_ws_words)
  show "\<forall>w\<in>set ((''time='' @ strftime t) #
      map (\<lambda>key. str_int key @ ''='' @ str_int (the (map_of rq key))) (sort (map fst rq))).
      w \<noteq> [] \<and> (\<forall>c\<in>set w. \<not> isspace c)"
    using store_results_tokens_plain[of _ t "\<lambda>key. the (map_of rq key)" "sort (map fst rq)"]
    by blast
  show "isspace (CHR '' '')" by (simp add: isspace_def)
  show "\<forall>c\<in>set [CHR 0x0A]. isspace c" by (simp add: isspace_def)
qed

lemma store_results_out_readlines:
  "readlines (join '' '' (store_results_out rq t)) = [join '' '' (store_results_out rq t)]"
  unfolding store_results_out_join
proof (rule readlines_line)
  let ?ws = "(''time='' @ strftime t) #
      map (\<lambda>key. str_int key @ ''='' @ str_int (the (map_of rq key))) (sort (map fst rq))"
  have plain: "\<forall>w\<in>set ?ws. \<forall>c\<in>set w. c \<noteq> CHR 0x0A \<and> c \<noteq> CHR 0x0D"
    using store_results_tokens_plain[of _ t "\<lambda>key. the (map_of rq key)" "sort (map fst rq)"]
    by blast
  show "CHR 0x0A \<notin> set (concat (map (\<lambda>w. w @ '' '') ?ws))"
    using plain by auto
  show "CHR 0x0D \<notin> set (concat (map (\<lambda>w. w @ '' '') ?ws))"
    using plain by auto
qed

text \<open>
  Claim C2. \<open>store_results\<close> appends one text to the file and leaves every other file
  alone. The text is the token \<open>time=\<close> with the formatted timestamp, then for every key
  of \<open>result_q\<close>, in ascending order and once each, a space and the token
  \<open>key=answer\<close>, then a space and the line end. It is exactly one line, it ends with
  the line end, and split at whitespace it gives the time token followed by the
  answer tokens.
\<close>

theorem store_results_line:
  assumes "distinct (map fst rq)"
  shows "\<exists>line.
           store_results fs outfile rq t =
             fs(outfile \<mapsto> (case fs outfile of None \<Rightarrow> [] | Some old \<Rightarrow> old) @ line) \<and>
           line = ''time='' @ strftime t @
                  concat (map (\<lambda>key. '' '' @ str_int key @ ''='' @ str_int (the (map_of rq key)))
                            (sort (map fst rq))) @ '' '' @ [CHR 0x0A] \<and>
           readlines line = [line] \<and> last line = CHR 0x0A \<and>
           split_ws line =
             (''time='' @ strftime t) #
             map (\<lambda>key. str_int key @ ''='' @ str_int (the (map_of rq key))) (sort (map fst rq)) \<and>
           sorted (sort (map fst rq)) \<and> distinct (sort (map fst rq)) \<and>
           set (sort (map fst rq)) = fst ` set rq \<and>
           (\<forall>(key, answer)\<in>set rq. map_of rq key = Some answer)"
proof -
  let ?line = "join '' '' (store_results_out rq t)"
  have a: "store_results fs outfile rq t =
      fs(outfile \<mapsto> (case fs outfile of None \<Rightarrow> [] | Some old \<Rightarrow> old) @ ?line)"
    by (simp add: store_results_def open_a_write_def)
  have b: "?line = ''time='' @ strftime t @
      concat (map (\<lambda>key. '' '' @ str_int key @ ''='' @ str_int (the (map_of rq key)))
                (sort (map fst rq))) @ '' '' @ [CHR 0x0A]"
    by (simp add: store_results_out_def join_Cons comp_def)
  have c: "last ?line = CHR 0x0A" unfolding b by simp
  have d: "\<forall>(key, answer)\<in>set rq. map_of rq key = Some answer"
    using assms by auto
  from a b c d store_results_out_readlines[of rq t] store_results_out_split[of rq t] assms
  show ?thesis by (intro exI[of _ ?line]) simp
qed

theorem store_results_line_witness:
  "distinct (map fst [(1, 5), (0, 2 :: int)] :: int list) \<and>
   store_results Map.empty ''results.txt'' [(1, 5), (0, 2)]
     \<lparr>year = 2017, month = 3, day = 9, hour = 7, minute = 5, second = 0, microsecond = 1234\<rparr>
     ''results.txt'' = Some (''time=09.03.2017-07:05:00:001234 0=2 1=5 '' @ [CHR 0x0A])"
proof -
  have h: "distinct (map fst [(1, 5), (0, 2 :: int)] :: int list)" by simp
  have e: "''time='' @ strftime \<lparr>year = 2017, month = 3, day = 9, hour = 7, minute = 5,
        second = 0, microsecond = 1234\<rparr> @
      concat (map (\<lambda>key. '' '' @ str_int key @ ''='' @
                     str_int (the (map_of [(1, 5), (0, 2 :: int)] key)))
                (sort (map fst [(1, 5), (0, 2 :: int)] :: int list))) @ '' '' @ [CHR 0x0A] =
      ''time=09.03.2017-07:05:00:001234 0=2 1=5 '' @ [CHR 0x0A]"
    by code_simp
  from store_results_line[OF h, of Map.empty "''results.txt''"
      "\<lparr>year = 2017, month = 3, day = 9, hour = 7, minute = 5, second = 0, microsecond = 1234\<rparr>"]
  obtain line where
    "store_results Map.empty ''results.txt'' [(1, 5), (0, 2)]
       \<lparr>year = 2017, month = 3, day = 9, hour = 7, minute = 5, second = 0, microsecond = 1234\<rparr> =
     Map.empty(''results.txt'' \<mapsto> (case Map.empty ''results.txt'' of None \<Rightarrow> [] | Some old \<Rightarrow> old) @ line)"
    and "line = ''time='' @ strftime \<lparr>year = 2017, month = 3, day = 9, hour = 7, minute = 5,
        second = 0, microsecond = 1234\<rparr> @
      concat (map (\<lambda>key. '' '' @ str_int key @ ''='' @
                     str_int (the (map_of [(1, 5), (0, 2 :: int)] key)))
                (sort (map fst [(1, 5), (0, 2 :: int)] :: int list))) @ '' '' @ [CHR 0x0A]"
    by blast
  with e h show ?thesis by simp
qed

subsection \<open>\<open>read_scorings\<close>\<close>

lemma split_sep_nonempty: "split_sep c s \<noteq> []"
  by (induction s) (auto split: list.splits)

lemma length_split_sep: "length (split_sep c s) = Suc (length (filter (\<lambda>x. x = c) s))"
  by (induction s) (auto split: list.splits simp: split_sep_nonempty)

lemma split_sep_single: "length (split_sep c s) \<le> 1 \<longleftrightarrow> c \<notin> set s"
  by (auto simp: length_split_sep filter_empty_conv)

lemma split_sep_single': "length (split_sep c s) \<le> Suc 0 \<longleftrightarrow> c \<notin> set s"
  using split_sep_single[of c s] by simp

lemma map_of_fold_update:
  "map_of (fold (\<lambda>l. AList.update (k l) (v l)) ls sc) =
   map_of (rev (map (\<lambda>l. (k l, v l)) ls) @ sc)"
proof (induction ls arbitrary: sc)
  case Nil
  then show ?case by simp
next
  case (Cons l ls)
  have "map_of (rev (map (\<lambda>l. (k l, v l)) ls) @ AList.update (k l) (v l) sc) =
      map_of (rev (map (\<lambda>l. (k l, v l)) ls) @ (k l, v l) # sc)"
    by (simp add: map_of_append update_conv')
  with Cons.IH[of "AList.update (k l) (v l) sc"] show ?case by simp
qed

lemma distinct_fold_update:
  "distinct (map fst sc) \<Longrightarrow> distinct (map fst (fold (\<lambda>l. AList.update (k l) (v l)) ls sc))"
  by (induction ls arbitrary: sc) (simp_all add: distinct_update)

lemma read_scorings_lines_ok:
  "\<forall>l\<in>set ls. well_formed_scoring l \<Longrightarrow>
   read_scorings_lines ls sc =
     Inr (fold (\<lambda>l. AList.update (label_field l) (the (py_int (score_field l)))) ls sc)"
proof (induction ls arbitrary: sc)
  case Nil
  then show ?case by simp
next
  case (Cons l ls)
  from Cons.prems have wf: "well_formed_scoring l" by simp
  then obtain score where sc: "py_int (strip (split_sep (CHR ''='') l ! 0)) = Some score"
    by (auto simp: well_formed_scoring_def score_field_def)
  from wf have len: "\<not> length (split_sep (CHR ''='') l) \<le> 1"
    by (simp add: well_formed_scoring_def split_sep_single')
  from Cons.prems have "\<forall>l\<in>set ls. well_formed_scoring l" by simp
  from Cons.IH[OF this] sc len show ?case
    by (simp add: Let_def label_field_def score_field_def)
qed

lemma read_scorings_lines_bad:
  "\<exists>l\<in>set ls. \<not> well_formed_scoring l \<Longrightarrow>
   read_scorings_lines ls sc = Inl ValueError \<or> read_scorings_lines ls sc = Inl IndexError"
proof (induction ls arbitrary: sc)
  case Nil
  then show ?case by simp
next
  case (Cons l ls)
  show ?case
  proof (cases "well_formed_scoring l")
    case True
    then obtain score where sc: "py_int (strip (split_sep (CHR ''='') l ! 0)) = Some score"
      by (auto simp: well_formed_scoring_def score_field_def)
    from True have len: "\<not> length (split_sep (CHR ''='') l) \<le> 1"
      by (simp add: well_formed_scoring_def split_sep_single')
    from Cons.prems True have "\<exists>l\<in>set ls. \<not> well_formed_scoring l" by auto
    from Cons.IH[OF this] sc len show ?thesis by (simp add: Let_def)
  next
    case False
    then show ?thesis
      by (auto simp: well_formed_scoring_def score_field_def split_sep_single' Let_def
          split: option.splits)
  qed
qed

text \<open>
  Claim C8. For a scorings file that exists, \<open>read_scorings\<close> raises exactly when some
  line has no \<open>=\<close> or has a first field that \<open>int\<close> rejects, and what it raises is then
  a \<open>ValueError\<close> or an \<open>IndexError\<close>; on every other file it returns a dict. The dict
  maps the trimmed second field of a line (the label) to the integer of its first
  field; of two lines with one label the later one counts.
\<close>

theorem read_scorings_format:
  assumes "fs filename = Some text"
  shows "((\<exists>e. read_scorings fs filename = Inl e) \<longleftrightarrow>
            (\<exists>l\<in>set (readlines text). \<not> well_formed_scoring l)) \<and>
         (\<forall>e. read_scorings fs filename = Inl e \<longrightarrow> e = ValueError \<or> e = IndexError) \<and>
         ((\<forall>l\<in>set (readlines text). well_formed_scoring l) \<longrightarrow>
            (\<exists>scorings. read_scorings fs filename = Inr scorings \<and>
               distinct (map fst scorings) \<and>
               map_of scorings =
                 map_of (rev (map (\<lambda>l. (label_field l, the (py_int (score_field l))))
                                (readlines text)))))"
proof -
  have rs: "read_scorings fs filename = read_scorings_lines (readlines text) []"
    using assms by (simp add: read_scorings_def open_r_def)
  show ?thesis
  proof (cases "\<forall>l\<in>set (readlines text). well_formed_scoring l")
    case True
    from read_scorings_lines_ok[OF True, of "[]"]
    have ok: "read_scorings fs filename =
        Inr (fold (\<lambda>l. AList.update (label_field l) (the (py_int (score_field l))))
               (readlines text) [])"
      using rs by simp
    have d: "distinct (map fst (fold (\<lambda>l. AList.update (label_field l) (the (py_int (score_field l))))
               (readlines text) []))"
      by (rule distinct_fold_update) simp
    have m: "map_of (fold (\<lambda>l. AList.update (label_field l) (the (py_int (score_field l))))
               (readlines text) []) =
        map_of (rev (map (\<lambda>l. (label_field l, the (py_int (score_field l)))) (readlines text)))"
      using map_of_fold_update[of label_field "\<lambda>l. the (py_int (score_field l))" "readlines text" "[]"]
      by simp
    from True ok d m show ?thesis by simp
  next
    case False
    then have "\<exists>l\<in>set (readlines text). \<not> well_formed_scoring l" by simp
    from read_scorings_lines_bad[OF this, of "[]"] False rs show ?thesis by auto
  qed
qed

theorem read_scorings_format_witness:
  "[''scoring.txt'' \<mapsto> ''0 = never'' @ [CHR 0x0A] @ ''5 = always'' @ [CHR 0x0A]] ''scoring.txt'' =
     Some (''0 = never'' @ [CHR 0x0A] @ ''5 = always'' @ [CHR 0x0A]) \<and>
   list_all well_formed_scoring
     (readlines (''0 = never'' @ [CHR 0x0A] @ ''5 = always'' @ [CHR 0x0A])) \<and>
   (\<exists>scorings.
      read_scorings [''scoring.txt'' \<mapsto> ''0 = never'' @ [CHR 0x0A] @ ''5 = always'' @ [CHR 0x0A]]
        ''scoring.txt'' = Inr scorings \<and>
      map_of scorings ''always'' = Some 5)"
proof -
  have h: "[''scoring.txt'' \<mapsto> ''0 = never'' @ [CHR 0x0A] @ ''5 = always'' @ [CHR 0x0A]] ''scoring.txt'' =
     Some (''0 = never'' @ [CHR 0x0A] @ ''5 = always'' @ [CHR 0x0A])"
    by simp
  have l: "readlines (''0 = never'' @ [CHR 0x0A] @ ''5 = always'' @ [CHR 0x0A]) =
      [''0 = never'' @ [CHR 0x0A], ''5 = always'' @ [CHR 0x0A]]"
    by code_simp
  have w: "list_all well_formed_scoring [''0 = never'' @ [CHR 0x0A], ''5 = always'' @ [CHR 0x0A]]"
    by code_simp
  have m: "map_of (rev (map (\<lambda>l. (label_field l, the (py_int (score_field l))))
      [''0 = never'' @ [CHR 0x0A], ''5 = always'' @ [CHR 0x0A]])) ''always'' = Some 5"
    by code_simp
  from w have w': "\<forall>l\<in>set (readlines (''0 = never'' @ [CHR 0x0A] @ ''5 = always'' @ [CHR 0x0A])).
      well_formed_scoring l"
    unfolding l by simp
  from read_scorings_format[of
      "[''scoring.txt'' \<mapsto> ''0 = never'' @ [CHR 0x0A] @ ''5 = always'' @ [CHR 0x0A]]"
      "''scoring.txt''" "''0 = never'' @ [CHR 0x0A] @ ''5 = always'' @ [CHR 0x0A]", OF h]
    w' m h show ?thesis
    unfolding l list_all_iff by auto
qed

subsection \<open>\<open>read_results\<close>\<close>

lemma read_results_token_answer:
  assumes "token_key i \<noteq> ''time''"
  shows "read_results_token mapping r i =
     (if answer_token mapping i
      then Inr (r\<lparr>result_q := AList.update (token_id i) (token_answer i) (result_q r),
                  result_c := add_to_category (the (mapping (token_id i))) (token_answer i)
                                (result_c r)\<rparr>)
      else Inl (if py_int (split_sep (CHR ''='') i ! 0) = None then ValueError
                else if CHR ''='' \<notin> set i then IndexError
                else if py_int (split_sep (CHR ''='') i ! 1) = None then ValueError
                else KeyError))"
proof -
  from assms have k: "split_sep (CHR ''='') i ! 0 \<noteq> ''time''"
    by (simp add: token_key_def)
  show ?thesis
  proof (cases "py_int (split_sep (CHR ''='') i ! 0)")
    case None
    then show ?thesis
      using k by (simp add: read_results_token_def answer_token_def Let_def)
  next
    case idx: (Some idx)
    then have id: "token_id i = idx" by (simp add: token_id_def)
    show ?thesis
    proof (cases "CHR ''='' \<in> set i")
      case False
      then show ?thesis
        using k idx by (simp add: read_results_token_def answer_token_def Let_def split_sep_single')
    next
      case eq: True
      show ?thesis
      proof (cases "py_int (split_sep (CHR ''='') i ! 1)")
        case None
        then show ?thesis
          using k idx eq
          by (simp add: read_results_token_def answer_token_def Let_def split_sep_single')
      next
        case ans: (Some answer)
        then have an: "token_answer i = answer" by (simp add: token_answer_def)
        show ?thesis
        proof (cases "mapping idx")
          case None
          then show ?thesis
            using k idx eq ans id
            by (simp add: read_results_token_def answer_token_def Let_def split_sep_single')
        next
          case (Some category)
          then show ?thesis
            using k idx eq ans id an
            by (simp add: read_results_token_def answer_token_def Let_def split_sep_single')
        qed
      qed
    qed
  qed
qed


lemma read_results_token_answer_ok:
  assumes "token_key i \<noteq> ''time''" and "answer_token mapping i"
  shows "\<exists>r1. read_results_token mapping r i = Inr r1 \<and> time r1 = time r \<and>
           result_q r1 = AList.update (token_id i) (token_answer i) (result_q r) \<and>
           result_c r1 = add_to_category (the (mapping (token_id i))) (token_answer i) (result_c r)"
  using read_results_token_answer[OF assms(1), of mapping r] assms(2) by simp

lemma read_results_token_answer_bad:
  assumes "token_key i \<noteq> ''time''" and "\<not> answer_token mapping i"
  shows "\<exists>e. read_results_token mapping r i = Inl e"
  using read_results_token_answer[OF assms(1), of mapping r] assms(2) by simp

lemma read_results_tokens_ok:
  "\<forall>i\<in>set split. token_key i \<noteq> ''time'' \<Longrightarrow> \<forall>i\<in>set split. answer_token mapping i \<Longrightarrow>
   \<exists>r'. read_results_tokens mapping r split = Inr r' \<and> time r' = time r"
proof (induction split arbitrary: r)
  case Nil
  then show ?case by simp
next
  case (Cons i split)
  from Cons.prems have k: "token_key i \<noteq> ''time''" and a: "answer_token mapping i" by simp_all
  from read_results_token_answer_ok[OF k a, of r] obtain r1 where
    s: "read_results_token mapping r i = Inr r1" and t: "time r1 = time r"
    by blast
  from Cons.prems have "\<forall>i\<in>set split. token_key i \<noteq> ''time''"
    and "\<forall>i\<in>set split. answer_token mapping i" by simp_all
  from Cons.IH[OF this, of r1] obtain r' where
    "read_results_tokens mapping r1 split = Inr r'" and "time r' = time r1"
    by blast
  with s t have "read_results_tokens mapping r (i # split) = Inr r' \<and> time r' = time r"
    by simp
  then show ?case by blast
qed

lemma read_results_tokens_Inr:
  "\<forall>i\<in>set split. token_key i \<noteq> ''time'' \<Longrightarrow> read_results_tokens mapping r split = Inr r' \<Longrightarrow>
   (\<forall>i\<in>set split. answer_token mapping i) \<and> time r' = time r"
proof (induction split arbitrary: r)
  case Nil
  then show ?case by simp
next
  case (Cons i split)
  from Cons.prems have k: "token_key i \<noteq> ''time''" by simp
  have a: "answer_token mapping i"
  proof (rule ccontr)
    assume "\<not> answer_token mapping i"
    from read_results_token_answer_bad[OF k this, of r] obtain e where
      "read_results_token mapping r i = Inl e" by blast
    with Cons.prems(2) show False by simp
  qed
  from read_results_token_answer_ok[OF k a, of r] obtain r1 where
    s: "read_results_token mapping r i = Inr r1" and t: "time r1 = time r"
    by blast
  from Cons.prems(2) s have r: "read_results_tokens mapping r1 split = Inr r'" by simp
  from Cons.prems have "\<forall>i\<in>set split. token_key i \<noteq> ''time''" by simp
  from Cons.IH[OF this r] a t show ?case by simp
qed

lemma read_results_lines_Inr:
  "read_results_lines mapping ls results = Inr rs \<Longrightarrow>
     \<exists>ss. map (read_results_line mapping) ls = map Inr ss \<and> rs = results @ ss"
proof (induction ls arbitrary: results)
  case Nil
  then show ?case by simp
next
  case (Cons l ls)
  from Cons.prems obtain s where s: "read_results_line mapping l = Inr s"
    and r: "read_results_lines mapping ls (results @ [s]) = Inr rs"
    by (cases "read_results_line mapping l") simp_all
  from Cons.IH[OF r] obtain ss where
    m: "map (read_results_line mapping) ls = map Inr ss" and e: "rs = (results @ [s]) @ ss"
    by blast
  have "map (read_results_line mapping) (l # ls) = map Inr (s # ss)" using s m by simp
  moreover have "rs = results @ (s # ss)" using e by simp
  ultimately show ?case by blast
qed

lemma read_results_lines_append:
  "read_results_lines mapping (ls @ ls') results =
     (case read_results_lines mapping ls results of
        Inl e \<Rightarrow> Inl e
      | Inr rs \<Rightarrow> read_results_lines mapping ls' rs)"
  by (induction ls arbitrary: results) (simp_all split: sum.splits)

lemma read_results_nth:
  assumes "fs filename = Some text" and "read_results fs filename mapping = Inr results"
  shows "length results = length (readlines text) \<and>
     (\<forall>n<length results. read_results_line mapping (readlines text ! n) = Inr (results ! n))"
proof -
  from assms have "read_results_lines mapping (readlines text) [] = Inr results"
    by (simp add: read_results_def open_r_def)
  from read_results_lines_Inr[OF this]
  obtain ss where m: "map (read_results_line mapping) (readlines text) = map Inr ss"
    and r: "results = ss"
    by auto
  from arg_cong[OF m, of length]
  have len: "length ss = length (readlines text)" by simp
  moreover have "\<forall>n<length ss. read_results_line mapping (readlines text ! n) = Inr (ss ! n)"
  proof (intro allI impI)
    fix n assume n: "n < length ss"
    then have "map (read_results_line mapping) (readlines text) ! n = map Inr ss ! n"
      using m by simp
    then show "read_results_line mapping (readlines text ! n) = Inr (ss ! n)"
      using n len by simp
  qed
  ultimately show ?thesis using r by simp
qed


text \<open>
  Claim C7, as the code has it. A line without a \<open>time\<close> token is read like any other:
  \<open>read_results\<close> gets a session from it exactly when each of its tokens is
  \<open>id=answer\<close> with two integers and an id of the mapping, and raises otherwise. In
  every session read from such a line the timestamp is still \<open>None\<close>: nothing is
  parsed and nothing is put in its place.
\<close>

theorem read_results_no_time_token:
  assumes "\<forall>i\<in>set (split_ws (strip lines)). token_key i \<noteq> ''time''"
  shows "((\<exists>new_result. read_results_line mapping lines = Inr new_result) \<longleftrightarrow>
            (\<forall>i\<in>set (split_ws (strip lines)). answer_token mapping i)) \<and>
         (\<forall>new_result. read_results_line mapping lines = Inr new_result \<longrightarrow>
            time new_result = None) \<and>
         (\<forall>fs filename text results n.
            fs filename = Some text \<and> read_results fs filename mapping = Inr results \<and>
            n < length (readlines text) \<and> readlines text ! n = lines \<longrightarrow>
            n < length results \<and> time (results ! n) = None)"
proof -
  let ?r0 = "\<lparr>time = None, result_q = [], result_c = []\<rparr>"
  have sentinel: "time new_result = None" if "read_results_line mapping lines = Inr new_result"
    for new_result
  proof -
    from that have "read_results_tokens mapping ?r0 (split_ws (strip lines)) = Inr new_result"
      by (simp add: read_results_line_def)
    from read_results_tokens_Inr[OF assms this] show ?thesis by simp
  qed
  have a: "(\<exists>new_result. read_results_line mapping lines = Inr new_result) \<longleftrightarrow>
      (\<forall>i\<in>set (split_ws (strip lines)). answer_token mapping i)"
  proof
    assume "\<exists>new_result. read_results_line mapping lines = Inr new_result"
    then obtain new_result where
      "read_results_tokens mapping ?r0 (split_ws (strip lines)) = Inr new_result"
      by (auto simp: read_results_line_def)
    from read_results_tokens_Inr[OF assms this]
    show "\<forall>i\<in>set (split_ws (strip lines)). answer_token mapping i" by simp
  next
    assume "\<forall>i\<in>set (split_ws (strip lines)). answer_token mapping i"
    from read_results_tokens_ok[OF assms this, of ?r0]
    show "\<exists>new_result. read_results_line mapping lines = Inr new_result"
      by (auto simp: read_results_line_def)
  qed
  have c: "n < length results \<and> time (results ! n) = None"
    if "fs filename = Some contents" and "read_results fs filename mapping = Inr results"
      and "n < length (readlines contents)" and "readlines contents ! n = lines"
    for fs :: files and filename and contents and results and n
  proof -
    from read_results_nth[OF that(1,2)] that(3)
    have n: "n < length results"
      and "read_results_line mapping (readlines contents ! n) = Inr (results ! n)"
      by simp_all
    then have "read_results_line mapping lines = Inr (results ! n)" using that(4) by simp
    from sentinel[OF this] n show ?thesis by simp
  qed
  from a sentinel c show ?thesis by blast
qed

theorem read_results_no_time_token_witness:
  "list_all (\<lambda>i. token_key i \<noteq> ''time'') (split_ws (strip (''0=2 1=5'' @ [CHR 0x0A]))) \<and>
   list_all (answer_token [0 \<mapsto> ''mental'', 1 \<mapsto> ''technique''])
     (split_ws (strip (''0=2 1=5'' @ [CHR 0x0A]))) \<and>
   (\<exists>new_result.
      read_results_line [0 \<mapsto> ''mental'', 1 \<mapsto> ''technique''] (''0=2 1=5'' @ [CHR 0x0A]) =
        Inr new_result \<and> time new_result = None)"
proof -
  have l: "split_ws (strip (''0=2 1=5'' @ [CHR 0x0A])) = [''0=2'', ''1=5'']"
    by code_simp
  have k: "list_all (\<lambda>i. token_key i \<noteq> ''time'') [''0=2'', ''1=5'']"
    by code_simp
  have w: "list_all (answer_token [0 \<mapsto> ''mental'', 1 \<mapsto> ''technique'']) [''0=2'', ''1=5'']"
    by code_simp
  have h: "\<forall>i\<in>set (split_ws (strip (''0=2 1=5'' @ [CHR 0x0A]))). token_key i \<noteq> ''time''"
    unfolding l using k by simp
  have h': "\<forall>i\<in>set (split_ws (strip (''0=2 1=5'' @ [CHR 0x0A]))).
      answer_token [0 \<mapsto> ''mental'', 1 \<mapsto> ''technique''] i"
    unfolding l using w by simp
  from read_results_no_time_token[OF h, of "[0 \<mapsto> ''mental'', 1 \<mapsto> ''technique'']"] h h'
  show ?thesis unfolding list_all_iff by blast
qed

text \<open>
  Claim C7 as stated fails on a line whose answer belongs to a question that is not in
  the mapping, and on a line with an answer that is no integer: there is no \<open>time\<close>
  token, and \<open>read_results\<close> raises a \<open>KeyError\<close> or a \<open>ValueError\<close> instead of
  returning a session.
\<close>

theorem read_results_no_time_token_counterexample:
  "''time'' \<notin> set (map token_key (split_ws (strip (''0=2 7=4'' @ [CHR 0x0A])))) \<and>
   read_results [''results.txt'' \<mapsto> ''0=2 7=4'' @ [CHR 0x0A]] ''results.txt''
     [0 \<mapsto> ''mental'', 1 \<mapsto> ''technique''] = Inl KeyError \<and>
   ''time'' \<notin> set (map token_key (split_ws (strip (''0=2 1=x'' @ [CHR 0x0A])))) \<and>
   read_results [''results.txt'' \<mapsto> ''0=2 1=x'' @ [CHR 0x0A]] ''results.txt''
     [0 \<mapsto> ''mental'', 1 \<mapsto> ''technique''] = Inl ValueError"
  by code_simp

subsection \<open>Sums of answers\<close>

lemma sum_update_fresh:
  "k \<notin> fst ` set al \<Longrightarrow> sum_list (map snd (AList.update k v al)) = sum_list (map snd al) + (v::int)"
  by (simp add: update_fresh)

lemma sum_add_to_category:
  "sum_list (map snd (add_to_category category answer d)) = sum_list (map snd d) + answer"
proof (induction d)
  case Nil
  then show ?case by (simp add: add_to_category_def)
next
  case (Cons p d)
  show ?case
  proof (cases "fst p = category")
    case True
    then show ?thesis by (cases p) (simp add: add_to_category_def)
  next
    case False
    with Cons.IH show ?thesis by (cases p) (simp add: add_to_category_def)
  qed
qed

lemma read_results_token_time:
  assumes "token_key i = ''time''" and "read_results_token mapping r i = Inr r1"
  shows "result_q r1 = result_q r \<and> result_c r1 = result_c r"
proof -
  from assms(1) have k: "split_sep (CHR ''='') i ! 0 = ''time''" by (simp add: token_key_def)
  show ?thesis
  proof (cases "length (split_sep (CHR ''='') i) \<le> 1")
    case True
    with assms(2) k show ?thesis by (simp add: read_results_token_def Let_def)
  next
    case False
    show ?thesis
    proof (cases "strptime (split_sep (CHR ''='') i ! 1)")
      case None
      with assms(2) k False show ?thesis by (simp add: read_results_token_def Let_def)
    next
      case (Some t)
      with assms(2) k False have "r1 = r\<lparr>time := Some t\<rparr>"
        by (simp add: read_results_token_def Let_def)
      then show ?thesis by simp
    qed
  qed
qed

lemma read_results_tokens_sum:
  "read_results_tokens mapping r split = Inr r' \<Longrightarrow>
   distinct (map token_id (filter (\<lambda>i. token_key i \<noteq> ''time'') split)) \<Longrightarrow>
   set (map token_id (filter (\<lambda>i. token_key i \<noteq> ''time'') split)) \<inter> fst ` set (result_q r) = {} \<Longrightarrow>
   sum_list (map snd (result_c r)) = sum_list (map snd (result_q r)) \<Longrightarrow>
   sum_list (map snd (result_c r')) = sum_list (map snd (result_q r'))"
proof (induction split arbitrary: r)
  case Nil
  then show ?case by simp
next
  case (Cons i split)
  from Cons.prems(1) obtain r1 where
    s: "read_results_token mapping r i = Inr r1" and rest: "read_results_tokens mapping r1 split = Inr r'"
    by (cases "read_results_token mapping r i") simp_all
  show ?case
  proof (cases "token_key i = ''time''")
    case True
    from read_results_token_time[OF True s]
    have q: "result_q r1 = result_q r" and c: "result_c r1 = result_c r" by simp_all
    from Cons.prems(2) True
    have d: "distinct (map token_id (filter (\<lambda>i. token_key i \<noteq> ''time'') split))" by simp
    from Cons.prems(3) True q
    have f: "set (map token_id (filter (\<lambda>i. token_key i \<noteq> ''time'') split)) \<inter>
        fst ` set (result_q r1) = {}" by simp
    from Cons.prems(4) q c
    have e: "sum_list (map snd (result_c r1)) = sum_list (map snd (result_q r1))" by simp
    from Cons.IH[OF rest d f e] show ?thesis .
  next
    case False
    have a: "answer_token mapping i"
    proof (rule ccontr)
      assume "\<not> answer_token mapping i"
      from read_results_token_answer_bad[OF False this, of r] s show False by simp
    qed
    from read_results_token_answer_ok[OF False a, of r] s
    have q: "result_q r1 = AList.update (token_id i) (token_answer i) (result_q r)"
      and c: "result_c r1 = add_to_category (the (mapping (token_id i))) (token_answer i) (result_c r)"
      by simp_all
    from Cons.prems(3) False have fresh: "token_id i \<notin> fst ` set (result_q r)" by auto
    from Cons.prems(2) False
    have d: "distinct (map token_id (filter (\<lambda>i. token_key i \<noteq> ''time'') split))"
      and n: "token_id i \<notin> set (map token_id (filter (\<lambda>i. token_key i \<noteq> ''time'') split))"
      by simp_all
    have keys: "fst ` set (result_q r1) = insert (token_id i) (fst ` set (result_q r))"
      unfolding q by (simp add: AList.dom_update)
    from Cons.prems(3) False n
    have f: "set (map token_id (filter (\<lambda>i. token_key i \<noteq> ''time'') split)) \<inter>
        fst ` set (result_q r1) = {}"
      unfolding keys by auto
    have e: "sum_list (map snd (result_c r1)) = sum_list (map snd (result_q r1))"
      unfolding q c using Cons.prems(4) fresh
      by (simp add: sum_add_to_category sum_update_fresh)
    from Cons.IH[OF rest d f e] show ?thesis .
  qed
qed

subsection \<open>Evaluating the result store on examples\<close>

lemmas strptime_eval = strptime_def day_field_def digit_field_def year_field_def fraction_field_def
  literal_def isdigit_def nat_of_digits_def digit_val_def valid_datetime_def days_in_month_def
  is_leap_def Let_def

lemmas read_results_eval = read_results_def open_r_def read_results_line_def read_results_token_def
  strip_def isspace_def py_int_def digit_groups_def isdigit_def nat_of_digits_def digit_val_def
  add_to_category_def Let_def

lemma strptime_example:
  "strptime ''09.03.2017-07:05:00:001234'' =
     Some \<lparr>year = 2017, month = 3, day = 9, hour = 7, minute = 5, second = 0, microsecond = 1234\<rparr>"
  by (simp add: strptime_eval)

text \<open>
  Claim C3, as the code has it. \<open>read_results\<close> stores an answer under its id, so that
  a later answer to the same id replaces the earlier one, but adds every answer to the
  total of its category. For every line that answers no question twice (such as every
  line written by \<open>store_results\<close>), whatever the other lines of the file are, the
  totals of the categories of the session read from it add up to the sum of its
  answers.
\<close>

theorem read_results_category_totals:
  assumes "distinct (line_ids lines)"
  shows "(\<forall>result. read_results_line mapping lines = Inr result \<longrightarrow>
            sum_list (map snd (result_c result)) = sum_list (map snd (result_q result))) \<and>
         (\<forall>fs filename contents results n.
            fs filename = Some contents \<and> read_results fs filename mapping = Inr results \<and>
            n < length (readlines contents) \<and> readlines contents ! n = lines \<longrightarrow>
            n < length results \<and>
            sum_list (map snd (result_c (results ! n))) =
              sum_list (map snd (result_q (results ! n))))"
proof -
  have line: "sum_list (map snd (result_c result)) = sum_list (map snd (result_q result))"
    if "read_results_line mapping lines = Inr result" for result
  proof -
    from that have t: "read_results_tokens mapping \<lparr>time = None, result_q = [], result_c = []\<rparr>
        (split_ws (strip lines)) = Inr result"
      by (simp add: read_results_line_def)
    from read_results_tokens_sum[OF t] assms show ?thesis
      by (simp add: line_ids_def)
  qed
  have in_file: "n < length results \<and>
      sum_list (map snd (result_c (results ! n))) = sum_list (map snd (result_q (results ! n)))"
    if "fs filename = Some contents" and "read_results fs filename mapping = Inr results"
      and "n < length (readlines contents)" and "readlines contents ! n = lines"
    for fs :: files and filename and contents and results and n
  proof -
    from read_results_nth[OF that(1,2)] that(3)
    have n: "n < length results"
      and "read_results_line mapping (readlines contents ! n) = Inr (results ! n)"
      by simp_all
    then have "read_results_line mapping lines = Inr (results ! n)" using that(4) by simp
    from line[OF this] n show ?thesis by simp
  qed
  from line in_file show ?thesis by blast
qed

theorem read_results_category_totals_witness:
  "distinct (line_ids (''0=2 1=5'' @ [CHR 0x0A])) \<and>
   readlines (''0=2 0=3'' @ [CHR 0x0A] @ ''0=2 1=5'' @ [CHR 0x0A]) ! 1 = ''0=2 1=5'' @ [CHR 0x0A] \<and>
   (\<exists>results.
      read_results [''results.txt'' \<mapsto> ''0=2 0=3'' @ [CHR 0x0A] @ ''0=2 1=5'' @ [CHR 0x0A]]
        ''results.txt'' [0 \<mapsto> ''mental'', 1 \<mapsto> ''technique''] = Inr results \<and>
      length results = 2 \<and>
      result_q (results ! 1) = [(0, 2), (1, 5)] \<and>
      sum_list (map snd (result_c (results ! 1))) = sum_list (map snd (result_q (results ! 1))))"
proof -
  let ?contents = "''0=2 0=3'' @ [CHR 0x0A] @ ''0=2 1=5'' @ [CHR 0x0A]"
  let ?m = "[0 \<mapsto> ''mental'', 1 \<mapsto> ''technique''] :: int \<rightharpoonup> string"
  let ?results = "[\<lparr>time = None, result_q = [(0, 3)], result_c = [(''mental'', 5)]\<rparr>,
      \<lparr>time = None, result_q = [(0, 2), (1, 5)],
         result_c = [(''mental'', 2), (''technique'', 5)]\<rparr>]"
  have h: "distinct (line_ids (''0=2 1=5'' @ [CHR 0x0A]))"
    by (simp add: line_ids_def token_id_def token_key_def read_results_eval)
  have f: "[''results.txt'' \<mapsto> ?contents] ''results.txt'' = Some ?contents" by simp
  have r: "read_results [''results.txt'' \<mapsto> ?contents] ''results.txt'' ?m = Inr ?results"
    by (simp add: read_results_eval)
  have l: "readlines ?contents = [''0=2 0=3'' @ [CHR 0x0A], ''0=2 1=5'' @ [CHR 0x0A]]"
    by simp
  have n: "1 < length (readlines ?contents)" unfolding l by simp
  have e: "readlines ?contents ! 1 = ''0=2 1=5'' @ [CHR 0x0A]" unfolding l by simp
  from read_results_category_totals[OF h, of ?m] f r n e
  have "sum_list (map snd (result_c (?results ! 1))) = sum_list (map snd (result_q (?results ! 1)))"
    by blast
  with h e r show ?thesis by simp
qed

text \<open>
  Claim C3 as stated fails on a line that answers question 0 twice: the session keeps
  the answer 3, the total of the category is 5.
\<close>

theorem read_results_category_totals_counterexample:
  "read_results [''results.txt'' \<mapsto> ''time=09.03.2017-07:05:00:001234 0=2 0=3 '' @ [CHR 0x0A]]
     ''results.txt'' [0 \<mapsto> ''mental'', 1 \<mapsto> ''technique''] =
     Inr [\<lparr>time = Some \<lparr>year = 2017, month = 3, day = 9, hour = 7, minute = 5, second = 0,
                         microsecond = 1234\<rparr>,
           result_q = [(0, 3)], result_c = [(''mental'', 5)]\<rparr>] \<and>
   sum_list (map snd [(''mental'', 5 :: int)]) \<noteq> sum_list (map snd [(0 :: int, 3 :: int)])"
  by (simp add: read_results_eval strptime_example)

subsection \<open>Reading back what \<open>store_results\<close> wrote\<close>

lemma split_sep_answer_token:
  "split_sep (CHR ''='') (str_int k @ ''='' @ str_int v) = [str_int k, str_int v]"
  using split_sep_first[of "CHR ''=''" "str_int k" "str_int v"]
  by (simp add: str_int_no_eq split_sep_none)

lemma str_int_not_time: "str_int k \<noteq> ''time''"
proof
  assume "str_int k = ''time''"
  then have "CHR ''t'' \<in> set (str_int k)" by simp
  from str_int_chars[OF this] show False by (simp add: isdigit_def)
qed

lemma written_answer_token:
  "token_key (str_int k @ ''='' @ str_int v) \<noteq> ''time''"
  "token_id (str_int k @ ''='' @ str_int v) = k"
  "token_answer (str_int k @ ''='' @ str_int v) = v"
  "mapping k \<noteq> None \<Longrightarrow> answer_token mapping (str_int k @ ''='' @ str_int v)"
  unfolding token_key_def token_id_def token_answer_def answer_token_def
    split_sep_answer_token
  by (simp_all add: str_int_not_time py_int_str_int)

lemma read_results_tokens_written:
  "distinct ks \<Longrightarrow> \<forall>k\<in>set ks. mapping k \<noteq> None \<Longrightarrow> set ks \<inter> fst ` set (result_q r) = {} \<Longrightarrow>
   \<exists>r'. read_results_tokens mapping r (map (\<lambda>k. str_int k @ ''='' @ str_int (f k)) ks) = Inr r' \<and>
     time r' = time r \<and> result_q r' = result_q r @ map (\<lambda>k. (k, f k)) ks"
proof (induction ks arbitrary: r)
  case Nil
  then show ?case by simp
next
  case (Cons k ks)
  let ?i = "str_int k @ ''='' @ str_int (f k)"
  from Cons.prems have m: "mapping k \<noteq> None" and fresh: "k \<notin> fst ` set (result_q r)"
    by auto
  note ok = read_results_token_answer_ok[OF written_answer_token(1)[of k "f k"]
      written_answer_token(4)[of mapping k "f k", OF m], of r,
      unfolded written_answer_token(2,3)]
  then obtain r1 where s: "read_results_token mapping r ?i = Inr r1" and t: "time r1 = time r"
    and q: "result_q r1 = AList.update k (f k) (result_q r)"
    by blast
  have q': "result_q r1 = result_q r @ [(k, f k)]"
    unfolding q using fresh by (rule update_fresh)
  from Cons.prems have d: "distinct ks" and ms: "\<forall>k\<in>set ks. mapping k \<noteq> None"
    and disj: "set ks \<inter> fst ` set (result_q r1) = {}"
    by (auto simp: q')
  from Cons.IH[OF d ms disj] obtain r' where
    "read_results_tokens mapping r1 (map (\<lambda>k. str_int k @ ''='' @ str_int (f k)) ks) = Inr r'"
    and "time r' = time r1" and "result_q r' = result_q r1 @ map (\<lambda>k. (k, f k)) ks"
    by blast
  with s t q' have "read_results_tokens mapping r (map (\<lambda>k. str_int k @ ''='' @ str_int (f k)) (k # ks)) = Inr r' \<and>
     time r' = time r \<and> result_q r' = result_q r @ map (\<lambda>k. (k, f k)) (k # ks)"
    by simp
  then show ?case by blast
qed

lemma read_results_token_written_time:
  assumes "valid_datetime t" and "1000 \<le> year t"
  shows "read_results_token mapping r (''time='' @ strftime t) = Inr (r\<lparr>time := Some t\<rparr>)"
proof -
  have "split_sep (CHR ''='') (''time'' @ CHR ''='' # strftime t) = [''time'', strftime t]"
    using split_sep_first[of "CHR ''=''" "''time''" "strftime t"]
    by (simp add: strftime_no_eq split_sep_none)
  then have "split_sep (CHR ''='') (''time='' @ strftime t) = [''time'', strftime t]" by simp
  then show ?thesis
    unfolding read_results_token_def
    by (simp add: Let_def strptime_strftime[OF assms])
qed

lemma read_results_line_written:
  assumes "valid_datetime t" and "1000 \<le> year t"
    and "distinct (map fst rq)" and "\<forall>key\<in>fst ` set rq. mapping key \<noteq> None"
  shows "\<exists>result. read_results_line mapping (join '' '' (store_results_out rq t)) = Inr result \<and>
     time result = Some t \<and>
     result_q result = map (\<lambda>key. (key, the (map_of rq key))) (sort (map fst rq))"
proof -
  let ?r0 = "\<lparr>time = None, result_q = [], result_c = []\<rparr>"
  let ?r1 = "?r0\<lparr>time := Some t\<rparr>"
  have d: "distinct (sort (map fst rq))" using assms(3) by simp
  have m: "\<forall>k\<in>set (sort (map fst rq)). mapping k \<noteq> None" using assms(4) by simp
  have e: "set (sort (map fst rq)) \<inter> fst ` set (result_q ?r1) = {}" by simp
  from read_results_tokens_written[OF d m e, of "\<lambda>key. the (map_of rq key)"]
  obtain r' where
    r: "read_results_tokens mapping ?r1
          (map (\<lambda>k. str_int k @ ''='' @ str_int (the (map_of rq k))) (sort (map fst rq))) = Inr r'"
    and t: "time r' = time ?r1"
    and q: "result_q r' = result_q ?r1 @ map (\<lambda>k. (k, the (map_of rq k))) (sort (map fst rq))"
    by blast
  have "read_results_tokens mapping ?r0
      ((''time='' @ strftime t) #
       map (\<lambda>k. str_int k @ ''='' @ str_int (the (map_of rq k))) (sort (map fst rq))) =
      read_results_tokens mapping ?r1
        (map (\<lambda>k. str_int k @ ''='' @ str_int (the (map_of rq k))) (sort (map fst rq)))"
    by (simp only: read_results_tokens.simps read_results_token_written_time[OF assms(1,2)] sum.case)
  with r have "read_results_line mapping (join '' '' (store_results_out rq t)) = Inr r'"
    unfolding read_results_line_def split_ws_strip store_results_out_split
    by (simp only:)
  with t q show ?thesis by simp
qed

lemma map_of_sorted_keys:
  assumes "distinct (map fst rq)"
  shows "map_of (map (\<lambda>key. (key, the (map_of rq key))) (sort (map fst rq))) = map_of rq"
proof
  fix k
  show "map_of (map (\<lambda>key. (key, the (map_of rq key))) (sort (map fst rq))) k = map_of rq k"
  proof (cases "k \<in> fst ` set rq")
    case True
    then obtain v where "map_of rq k = Some v"
      by (metis domD dom_map_of_conv_image_fst)
    moreover have "map_of (map (\<lambda>key. (key, the (map_of rq key))) (sort (map fst rq))) k =
        Some (the (map_of rq k))"
      using True by (simp add: map_of_map_restrict)
    ultimately show ?thesis by simp
  next
    case False
    then have "map_of rq k = None" by (simp add: map_of_eq_None_iff)
    moreover have "map_of (map (\<lambda>key. (key, the (map_of rq key))) (sort (map fst rq))) k = None"
      using False by (simp add: map_of_map_restrict)
    ultimately show ?thesis by simp
  qed
qed


text \<open>
  Claim C1, as the code has it. \<open>read_results\<close> looks every question id up in the
  mapping it is given and reads the file line by line, and \<open>strptime\<close> reads a year
  of four digits only. So the round trip holds for a session whose question ids are
  all in that mapping and whose timestamp has a year of at least 1000, written to a
  results file that is absent, empty or ends with a line end and whose lines
  \<open>read_results\<close> can read: after \<open>store_results\<close>, \<open>read_results\<close> returns the
  sessions it returned before followed by one more, whose timestamp is the one that was
  stored (the pattern keeps all of its microseconds) and whose answers are those that
  were stored, in ascending order of the ids.
\<close>

theorem store_results_read_results:
  assumes "valid_datetime t"
    and "1000 \<le> year t"
    and "distinct (map fst rq)"
    and "\<forall>key\<in>fst ` set rq. mapping key \<noteq> None"
    and "(case fs outfile of None \<Rightarrow> [] | Some old \<Rightarrow> old) = p"
    and "p = [] \<or> last p = CHR 0x0A"
    and "read_results (fs(outfile \<mapsto> p)) outfile mapping = Inr results"
  shows "\<exists>result.
           read_results (store_results fs outfile rq t) outfile mapping = Inr (results @ [result]) \<and>
           time result = Some t \<and>
           result_q result = map (\<lambda>key. (key, the (map_of rq key))) (sort (map fst rq)) \<and>
           map_of (result_q result) = map_of rq"
proof -
  let ?line = "join '' '' (store_results_out rq t)"
  from read_results_line_written[OF assms(1,2,3,4)] obtain result where
    l: "read_results_line mapping ?line = Inr result" and t: "time result = Some t"
    and q: "result_q result = map (\<lambda>key. (key, the (map_of rq key))) (sort (map fst rq))"
    by blast
  have before: "read_results_lines mapping (readlines p) [] = Inr results"
    using assms(7) by (simp add: read_results_def open_r_def)
  have lines: "readlines (p @ ?line) = readlines p @ [?line]"
    using readlines_append[OF assms(6), of ?line] store_results_out_readlines[of rq t]
    by simp
  have "store_results fs outfile rq t outfile = Some (p @ ?line)"
    using assms(5) by (simp add: store_results_def open_a_write_def)
  then have "read_results (store_results fs outfile rq t) outfile mapping =
      read_results_lines mapping (readlines p @ [?line]) []"
    by (simp add: read_results_def open_r_def lines)
  also have "\<dots> = Inr (results @ [result])"
    by (simp add: read_results_lines_append before l)
  finally have "read_results (store_results fs outfile rq t) outfile mapping =
      Inr (results @ [result])" .
  moreover have "map_of (result_q result) = map_of rq"
    unfolding q using assms(3) by (rule map_of_sorted_keys)
  ultimately show ?thesis using t q by blast
qed

theorem store_results_read_results_witness:
  "valid_datetime \<lparr>year = 2017, month = 3, day = 9, hour = 7, minute = 5, second = 0,
      microsecond = 1234\<rparr> \<and>
   1000 \<le> year \<lparr>year = 2017, month = 3, day = 9, hour = 7, minute = 5, second = 0,
      microsecond = 1234\<rparr> \<and>
   distinct (map fst [(1, 5), (0, 2 :: int)] :: int list) \<and>
   list_all (\<lambda>key. [0 \<mapsto> ''mental'', 1 \<mapsto> ''technique''] key \<noteq> None)
     (map fst [(1, 5), (0, 2 :: int)] :: int list) \<and>
   read_results (Map.empty(''results.txt'' \<mapsto> [])) ''results.txt''
     [0 \<mapsto> ''mental'', 1 \<mapsto> ''technique''] = Inr [] \<and>
   (\<exists>result.
      read_results
        (store_results Map.empty ''results.txt'' [(1, 5), (0, 2)]
           \<lparr>year = 2017, month = 3, day = 9, hour = 7, minute = 5, second = 0,
              microsecond = 1234\<rparr>)
        ''results.txt'' [0 \<mapsto> ''mental'', 1 \<mapsto> ''technique''] = Inr [result] \<and>
      time result = Some \<lparr>year = 2017, month = 3, day = 9, hour = 7, minute = 5, second = 0,
                            microsecond = 1234\<rparr> \<and>
      result_q result = [(0, 2), (1, 5)])"
proof -
  let ?t = "\<lparr>year = 2017, month = 3, day = 9, hour = 7, minute = 5, second = 0,
      microsecond = 1234\<rparr>"
  let ?m = "[0 \<mapsto> ''mental'', 1 \<mapsto> ''technique''] :: int \<rightharpoonup> string"
  let ?rq = "[(1, 5), (0, 2)] :: (int \<times> int) list"
  have h1: "valid_datetime ?t"
    by (simp add: valid_datetime_def days_in_month_def is_leap_def)
  have h1': "1000 \<le> year ?t" by simp
  have h2: "distinct (map fst ?rq)" by simp
  have h3: "\<forall>key\<in>fst ` set ?rq. ?m key \<noteq> None" by simp
  have h4: "(case (Map.empty :: files) ''results.txt'' of None \<Rightarrow> [] | Some old \<Rightarrow> old) = []"
    by simp
  have h5: "([] :: string) = [] \<or> last [] = CHR 0x0A" by simp
  have h6: "read_results (Map.empty(''results.txt'' \<mapsto> [])) ''results.txt'' ?m = Inr []"
    by (simp add: read_results_def open_r_def)
  have s: "map (\<lambda>key. (key, the (map_of ?rq key))) (sort (map fst ?rq)) = [(0, 2), (1, 5)]"
    by simp
  from store_results_read_results[of ?t ?rq ?m Map.empty "''results.txt''" "[]" "[]",
      OF h1 h1' h2 h3 h4 h5 h6] s h1 h6
  show ?thesis by (auto simp add: list_all_iff)
qed

text \<open>
  Claim C1 as stated fails in three ways. When the session answers a question that the
  mapping does not know (question 1 here), the line is written and reading the file
  back raises a \<open>KeyError\<close>. When the file so far does not end with a line end, though
  \<open>read_results\<close> reads it, the new line continues its last line, and reading the file
  back raises a \<open>ValueError\<close>. And when the timestamp is of the year 999, the year is
  written with three digits, which \<open>strptime\<close> does not take for \<open>%Y\<close>: a \<open>ValueError\<close>
  again.
\<close>

theorem store_results_read_results_counterexample:
  "store_results Map.empty ''results.txt'' [(0, 2), (1, 5)]
     \<lparr>year = 2017, month = 3, day = 9, hour = 7, minute = 5, second = 0, microsecond = 1234\<rparr> =
     [''results.txt'' \<mapsto> ''time=09.03.2017-07:05:00:001234 0=2 1=5 '' @ [CHR 0x0A]] \<and>
   read_results [''results.txt'' \<mapsto> ''time=09.03.2017-07:05:00:001234 0=2 1=5 '' @ [CHR 0x0A]]
     ''results.txt'' [0 \<mapsto> ''mental''] = Inl KeyError \<and>
   read_results [''results.txt'' \<mapsto> ''time=09.03.2017-07:05:00:001234 0=1 1=1'']
     ''results.txt'' [0 \<mapsto> ''mental'', 1 \<mapsto> ''technique''] =
     Inr [\<lparr>time = Some \<lparr>year = 2017, month = 3, day = 9, hour = 7, minute = 5, second = 0,
                         microsecond = 1234\<rparr>,
           result_q = [(0, 1), (1, 1)],
           result_c = [(''mental'', 1), (''technique'', 1)]\<rparr>] \<and>
   store_results [''results.txt'' \<mapsto> ''time=09.03.2017-07:05:00:001234 0=1 1=1'']
     ''results.txt'' [(0, 2), (1, 5)]
     \<lparr>year = 2017, month = 3, day = 9, hour = 7, minute = 5, second = 0, microsecond = 1234\<rparr> =
     [''results.txt'' \<mapsto>
        ''time=09.03.2017-07:05:00:001234 0=1 1=1time=09.03.2017-07:05:00:001234 0=2 1=5 '' @
        [CHR 0x0A]] \<and>
   read_results
     [''results.txt'' \<mapsto>
        ''time=09.03.2017-07:05:00:001234 0=1 1=1time=09.03.2017-07:05:00:001234 0=2 1=5 '' @
        [CHR 0x0A]]
     ''results.txt'' [0 \<mapsto> ''mental'', 1 \<mapsto> ''technique''] = Inl ValueError \<and>
   valid_datetime
     \<lparr>year = 999, month = 3, day = 9, hour = 7, minute = 5, second = 0, microsecond = 1234\<rparr> \<and>
   store_results Map.empty ''results.txt'' [(0, 2), (1, 5)]
     \<lparr>year = 999, month = 3, day = 9, hour = 7, minute = 5, second = 0, microsecond = 1234\<rparr> =
     [''results.txt'' \<mapsto> ''time=09.03.999-07:05:00:001234 0=2 1=5 '' @ [CHR 0x0A]] \<and>
   read_results [''results.txt'' \<mapsto> ''time=09.03.999-07:05:00:001234 0=2 1=5 '' @ [CHR 0x0A]]
     ''results.txt'' [0 \<mapsto> ''mental'', 1 \<mapsto> ''technique''] = Inl ValueError"
proof -
  let ?t = "\<lparr>year = 2017, month = 3, day = 9, hour = 7, minute = 5, second = 0,
      microsecond = 1234\<rparr>"
  let ?u = "\<lparr>year = 999, month = 3, day = 9, hour = 7, minute = 5, second = 0,
      microsecond = 1234\<rparr>"
  have e: "join '' '' (store_results_out [(0, 2), (1, 5)] ?t) =
      ''time=09.03.2017-07:05:00:001234 0=2 1=5 '' @ [CHR 0x0A]"
    by code_simp
  have w1: "store_results Map.empty ''results.txt'' [(0, 2), (1, 5)] ?t =
     [''results.txt'' \<mapsto> ''time=09.03.2017-07:05:00:001234 0=2 1=5 '' @ [CHR 0x0A]]"
    unfolding store_results_def e by (simp add: open_a_write_def)
  have r1: "read_results [''results.txt'' \<mapsto> ''time=09.03.2017-07:05:00:001234 0=2 1=5 '' @ [CHR 0x0A]]
     ''results.txt'' [0 \<mapsto> ''mental''] = Inl KeyError"
    by (simp add: read_results_eval strptime_example)
  have r0: "read_results [''results.txt'' \<mapsto> ''time=09.03.2017-07:05:00:001234 0=1 1=1'']
     ''results.txt'' [0 \<mapsto> ''mental'', 1 \<mapsto> ''technique''] =
     Inr [\<lparr>time = Some ?t, result_q = [(0, 1), (1, 1)],
           result_c = [(''mental'', 1), (''technique'', 1)]\<rparr>]"
    by (simp add: read_results_eval strptime_example)
  have w2: "store_results [''results.txt'' \<mapsto> ''time=09.03.2017-07:05:00:001234 0=1 1=1'']
     ''results.txt'' [(0, 2), (1, 5)] ?t =
     [''results.txt'' \<mapsto>
        ''time=09.03.2017-07:05:00:001234 0=1 1=1time=09.03.2017-07:05:00:001234 0=2 1=5 '' @
        [CHR 0x0A]]"
    unfolding store_results_def e by (simp add: open_a_write_def)
  have r2: "read_results
     [''results.txt'' \<mapsto>
        ''time=09.03.2017-07:05:00:001234 0=1 1=1time=09.03.2017-07:05:00:001234 0=2 1=5 '' @
        [CHR 0x0A]]
     ''results.txt'' [0 \<mapsto> ''mental'', 1 \<mapsto> ''technique''] = Inl ValueError"
    by (simp add: read_results_eval strptime_example)
  have v: "valid_datetime ?u"
    by (simp add: valid_datetime_def days_in_month_def is_leap_def)
  have e3: "join '' '' (store_results_out [(0, 2), (1, 5)] ?u) =
      ''time=09.03.999-07:05:00:001234 0=2 1=5 '' @ [CHR 0x0A]"
    by code_simp
  have w3: "store_results Map.empty ''results.txt'' [(0, 2), (1, 5)] ?u =
     [''results.txt'' \<mapsto> ''time=09.03.999-07:05:00:001234 0=2 1=5 '' @ [CHR 0x0A]]"
    unfolding store_results_def e3 by (simp add: open_a_write_def)
  have p3: "strptime ''09.03.999-07:05:00:001234'' = None"
    by (simp add: strptime_eval)
  have r3: "read_results [''results.txt'' \<mapsto> ''time=09.03.999-07:05:00:001234 0=2 1=5 '' @ [CHR 0x0A]]
     ''results.txt'' [0 \<mapsto> ''mental'', 1 \<mapsto> ''technique''] = Inl ValueError"
    by (simp add: read_results_eval p3)
  from w1 r1 r0 w2 r2 v w3 r3 show ?thesis by (intro conjI)
qed

subsection \<open>\<open>table_results_low_questions\<close>\<close>

lemma spec_low_rows_Nil: "spec_low_rows [] questions mapping category = []"
  by (simp add: spec_low_rows_def)

lemma spec_low_rows_Cons:
  "spec_low_rows ((idx, answer) # items) questions mapping category =
     (if answer \<le> 3 \<and> mapping idx = Some category
      then [[str_int idx, the (questions idx), str_int answer]] else []) @
     spec_low_rows items questions mapping category"
  by (simp add: spec_low_rows_def)

lemma rows_of_update:
  "rows_of (AList.update k v low) category = (if category = k then v else rows_of low category)"
  by (simp add: rows_of_def update_conv')

lemma low_questions_spec:
  assumes "\<forall>(idx, answer)\<in>set items. mapping idx \<noteq> None \<and> (answer \<le> 3 \<longrightarrow> questions idx \<noteq> None)"
  shows "\<exists>low'. low_questions items questions mapping low = Inr low' \<and>
           (\<forall>category. rows_of low' category =
              rows_of low category @ spec_low_rows items questions mapping category) \<and>
           fst ` set low' = fst ` set low \<union> {category. spec_low_rows items questions mapping category \<noteq> []} \<and>
           (distinct (map fst low) \<longrightarrow> distinct (map fst low'))"
  using assms
proof (induction items arbitrary: low)
  case Nil
  then show ?case by (simp add: spec_low_rows_Nil)
next
  case (Cons item items)
  obtain idx answer where item: "item = (idx, answer)" by (cases item)
  from Cons.prems item obtain category where cat: "mapping idx = Some category" by auto
  from Cons.prems have rest:
    "\<forall>(idx, answer)\<in>set items. mapping idx \<noteq> None \<and> (answer \<le> 3 \<longrightarrow> questions idx \<noteq> None)"
    by simp
  show ?case
  proof (cases "answer \<le> 3")
    case True
    with Cons.prems item obtain question where q: "questions idx = Some question" by auto
    let ?low1 = "AList.update category
        (rows_of low category @ [[str_int idx, question, str_int answer]]) low"
    have step: "low_questions (item # items) questions mapping low =
        low_questions items questions mapping ?low1"
      using item cat True q by (simp add: rows_of_def)
    from Cons.IH[OF rest, of ?low1] obtain low' where
      r: "low_questions items questions mapping ?low1 = Inr low'"
      and rows: "\<forall>c. rows_of low' c = rows_of ?low1 c @ spec_low_rows items questions mapping c"
      and keys: "fst ` set low' = fst ` set ?low1 \<union> {c. spec_low_rows items questions mapping c \<noteq> []}"
      and dist: "distinct (map fst ?low1) \<longrightarrow> distinct (map fst low')"
      by blast
    have a: "\<forall>c. rows_of low' c = rows_of low c @ spec_low_rows (item # items) questions mapping c"
      using rows item cat True q by (simp add: rows_of_update spec_low_rows_Cons)
    have b: "fst ` set low' =
        fst ` set low \<union> {c. spec_low_rows (item # items) questions mapping c \<noteq> []}"
      unfolding keys using item cat True by (auto simp: AList.dom_update spec_low_rows_Cons)
    have c: "distinct (map fst low) \<longrightarrow> distinct (map fst low')"
      using dist by (simp add: distinct_update)
    from step r a b c show ?thesis by simp
  next
    case False
    have step: "low_questions (item # items) questions mapping low =
        low_questions items questions mapping low"
      using item cat False by simp
    from Cons.IH[OF rest, of low] obtain low' where
      r: "low_questions items questions mapping low = Inr low'"
      and rows: "\<forall>c. rows_of low' c = rows_of low c @ spec_low_rows items questions mapping c"
      and keys: "fst ` set low' = fst ` set low \<union> {c. spec_low_rows items questions mapping c \<noteq> []}"
      and dist: "distinct (map fst low) \<longrightarrow> distinct (map fst low')"
      by blast
    have a: "\<forall>c. rows_of low' c = rows_of low c @ spec_low_rows (item # items) questions mapping c"
      using rows item False by (simp add: spec_low_rows_Cons)
    have b: "fst ` set low' =
        fst ` set low \<union> {c. spec_low_rows (item # items) questions mapping c \<noteq> []}"
      unfolding keys using item False by (simp add: spec_low_rows_Cons)
    from step r a b dist show ?thesis by simp
  qed
qed

lemma spec_low_categories_set:
  assumes "\<forall>(idx, answer)\<in>set items. mapping idx \<noteq> None"
  shows "set (spec_low_categories items mapping) = {category. spec_low_rows items questions mapping category \<noteq> []}"
proof -
  have "category \<in> set (spec_low_categories items mapping) \<longleftrightarrow>
      spec_low_rows items questions mapping category \<noteq> []" for category
  proof
    assume "category \<in> set (spec_low_categories items mapping)"
    then obtain idx answer where "(idx, answer) \<in> set items" and "answer \<le> 3"
      and "category = the (mapping idx)"
      by (auto simp: spec_low_categories_def)
    moreover from this assms have "mapping idx = Some category" by auto
    ultimately have "(idx, answer) \<in> set (filter (\<lambda>(idx, answer). answer \<le> 3 \<and> mapping idx = Some category) items)"
      by simp
    then show "spec_low_rows items questions mapping category \<noteq> []"
      unfolding spec_low_rows_def by (metis (no_types, lifting) Nil_is_map_conv empty_iff empty_set)
  next
    assume "spec_low_rows items questions mapping category \<noteq> []"
    then have "filter (\<lambda>(idx, answer). answer \<le> 3 \<and> mapping idx = Some category) items \<noteq> []"
      by (simp add: spec_low_rows_def)
    then obtain idx answer where "(idx, answer) \<in> set items" and "answer \<le> 3"
      and "mapping idx = Some category"
      by (auto simp: filter_empty_conv)
    then show "category \<in> set (spec_low_categories items mapping)"
      by (force simp: spec_low_categories_def)
  qed
  then show ?thesis by blast
qed

lemma spec_low_categories_sorted:
  "sorted (spec_low_categories items mapping)" "distinct (spec_low_categories items mapping)"
  by (simp_all add: spec_low_categories_def)


lemma generate_rst_table_total:
  assumes "\<forall>row\<in>set table. length row = length headings" and "headings \<noteq> []"
  shows "\<exists>lines. generate_rst_table table title headings = Inr lines"
proof -
  from col_len_table_max[OF assms(1)] obtain col_len where
    t: "col_len_table table (map (\<lambda>col. length col + 2) headings) = Inr col_len"
    and l: "length col_len = length headings"
    by blast
  have "col_len \<noteq> []" using assms(2) l by auto
  from generate_rst_table_unfold[OF t this, of title] show ?thesis by blast
qed

lemma low_tables_ok:
  assumes "\<forall>i\<in>set cats. map_of CATEGORIES i \<noteq> None \<and> map_of low i = Some (R i) \<and>
      (\<forall>row\<in>set (R i). length row = 3)"
  shows "\<exists>tables.
      list_all2 (\<lambda>i table. generate_rst_table (R i) (low_title (the (map_of CATEGORIES i)))
                   [''ID'', ''Question'', ''Answer''] = Inr table) cats tables \<and>
      low_tables cats low out = (out @ concat tables, None)"
  using assms
proof (induction cats arbitrary: out)
  case Nil
  then show ?case by simp
next
  case (Cons i cats)
  from Cons.prems obtain name where n: "map_of CATEGORIES i = Some name"
    and m: "map_of low i = Some (R i)" and a: "\<forall>row\<in>set (R i). length row = 3"
    by auto
  have "\<forall>row\<in>set (R i). length row = length [''ID'', ''Question'', ''Answer'']"
    using a by simp
  from generate_rst_table_total[OF this, of "low_title name"] obtain table where
    g: "generate_rst_table (R i) (low_title name) [''ID'', ''Question'', ''Answer''] = Inr table"
    by auto
  from Cons.prems have "\<forall>i\<in>set cats. map_of CATEGORIES i \<noteq> None \<and> map_of low i = Some (R i) \<and>
      (\<forall>row\<in>set (R i). length row = 3)" by simp
  from Cons.IH[OF this, of "out @ table"] obtain tables where
    l: "list_all2 (\<lambda>i table. generate_rst_table (R i) (low_title (the (map_of CATEGORIES i)))
                   [''ID'', ''Question'', ''Answer''] = Inr table) cats tables"
    and r: "low_tables cats low (out @ table) = ((out @ table) @ concat tables, None)"
    by blast
  have "list_all2 (\<lambda>i table. generate_rst_table (R i) (low_title (the (map_of CATEGORIES i)))
                   [''ID'', ''Question'', ''Answer''] = Inr table) (i # cats) (table # tables)"
    using l g n by simp
  moreover have "low_tables (i # cats) low out = (out @ concat (table # tables), None)"
    using n m g r by simp
  ultimately show ?case by blast
qed

lemma spec_low_rows_member:
  assumes "(idx, answer) \<in> set items"
  shows "[str_int idx, the (questions idx), str_int answer] \<in>
           set (spec_low_rows items questions mapping category) \<longleftrightarrow>
         answer \<le> 3 \<and> mapping idx = Some category"
proof
  assume "[str_int idx, the (questions idx), str_int answer] \<in>
      set (spec_low_rows items questions mapping category)"
  then obtain idx' answer' where "answer' \<le> 3" and "mapping idx' = Some category"
    and "str_int idx' = str_int idx" and "str_int answer' = str_int answer"
    by (auto simp: spec_low_rows_def)
  then show "answer \<le> 3 \<and> mapping idx = Some category"
    by (auto dest!: str_int_inj)
next
  assume "answer \<le> 3 \<and> mapping idx = Some category"
  with assms show "[str_int idx, the (questions idx), str_int answer] \<in>
      set (spec_low_rows items questions mapping category)"
    by (force simp: spec_low_rows_def)
qed

lemma spec_low_rows_distinct:
  assumes "distinct (map fst items)"
  shows "distinct (spec_low_rows items questions mapping category)"
proof -
  from assms have d: "distinct items" by (simp add: distinct_map)
  have "inj_on (\<lambda>(idx, answer). [str_int idx, the (questions idx), str_int answer]) (set items)"
    by (auto simp: inj_on_def dest: str_int_inj)
  then have "inj_on (\<lambda>(idx, answer). [str_int idx, the (questions idx), str_int answer])
      (set (filter (\<lambda>(idx, answer). answer \<le> 3 \<and> mapping idx = Some category) items))"
    by (rule inj_on_subset) auto
  with d show ?thesis by (simp add: spec_low_rows_def distinct_map)
qed

lemma spec_low_rows_arity: "\<forall>row\<in>set (spec_low_rows items questions mapping category). length row = 3"
  by (auto simp: spec_low_rows_def)

text \<open>
  Claim C6, as the code has it. The report of a session is printed when the session has
  a timestamp, every question id of it is in the mapping, and every answer of at most 3
  is to a question of the catalog whose category has a name in \<open>CATEGORIES\<close>; otherwise
  it stops with an exception. When it is printed it consists of the two heading lines
  and then, for every category with an answer of at most 3, in sorted order, the table
  of \<open>generate_rst_table\<close> for the rows of that category. The row of an answer of the
  session is among the rows of a category exactly when the answer is at most 3 and the
  category is the one its question id maps to, and no table holds a row twice.
\<close>

theorem table_results_low_questions_rows:
  assumes "time result = Some t"
    and "distinct (map fst (result_q result))"
    and "\<forall>(idx, answer)\<in>set (result_q result).
           mapping idx \<noteq> None \<and>
           (answer \<le> 3 \<longrightarrow>
              questions idx \<noteq> None \<and> map_of CATEGORIES (the (mapping idx)) \<noteq> None)"
  shows "\<exists>tables.
           list_all2
             (\<lambda>category table.
                generate_rst_table (spec_low_rows (result_q result) questions mapping category)
                  (low_title (the (map_of CATEGORIES category)))
                  [''ID'', ''Question'', ''Answer''] = Inr table)
             (spec_low_categories (result_q result) mapping) tables \<and>
           table_results_low_questions [result] questions mapping out =
             (out @ [[], ''Results for questions on '' @ strftime t] @ concat tables, None) \<and>
           (\<forall>category. category \<in> set (spec_low_categories (result_q result) mapping) \<longleftrightarrow>
              spec_low_rows (result_q result) questions mapping category \<noteq> []) \<and>
           (\<forall>(idx, answer)\<in>set (result_q result). \<forall>category.
              [str_int idx, the (questions idx), str_int answer] \<in>
                set (spec_low_rows (result_q result) questions mapping category) \<longleftrightarrow>
              answer \<le> 3 \<and> mapping idx = Some category) \<and>
           (\<forall>category. distinct (spec_low_rows (result_q result) questions mapping category))"
proof -
  let ?items = "result_q result"
  let ?rows = "spec_low_rows ?items questions mapping"
  let ?cats = "spec_low_categories ?items mapping"
  have pre1: "\<forall>(idx, answer)\<in>set ?items. mapping idx \<noteq> None \<and> (answer \<le> 3 \<longrightarrow> questions idx \<noteq> None)"
    using assms(3) by auto
  have pre2: "\<forall>(idx, answer)\<in>set ?items. mapping idx \<noteq> None"
    using assms(3) by auto
  from low_questions_spec[OF pre1, of "[]"] obtain low where
    lq: "low_questions ?items questions mapping [] = Inr low"
    and rows: "\<forall>category. rows_of low category = ?rows category"
    and keys: "fst ` set low = {category. ?rows category \<noteq> []}"
    and dist: "distinct (map fst low)"
    by (auto simp: rows_of_def)
  have cats_set: "set ?cats = {category. ?rows category \<noteq> []}"
    using pre2 by (rule spec_low_categories_set)
  have sorted_keys: "sort (map fst low) = ?cats"
  proof (rule sorted_distinct_set_unique)
    show "sorted (sort (map fst low))" by simp
    show "distinct (sort (map fst low))" using dist by simp
    show "sorted ?cats" by (rule spec_low_categories_sorted)
    show "distinct ?cats" by (rule spec_low_categories_sorted)
    show "set (sort (map fst low)) = set ?cats" using keys cats_set by simp
  qed
  have each: "\<forall>i\<in>set ?cats. map_of CATEGORIES i \<noteq> None \<and> map_of low i = Some (?rows i) \<and>
      (\<forall>row\<in>set (?rows i). length row = 3)"
  proof
    fix i assume "i \<in> set ?cats"
    then have ne: "?rows i \<noteq> []" using cats_set by simp
    then have "i \<in> fst ` set low" using keys by simp
    then obtain rs where m: "map_of low i = Some rs"
      by (metis domD dom_map_of_conv_image_fst)
    with rows have r: "rs = ?rows i" by (auto simp: rows_of_def split: option.splits)
    from ne obtain idx answer where "(idx, answer) \<in> set ?items" and "answer \<le> 3"
      and "mapping idx = Some i"
      by (auto simp: spec_low_rows_def filter_empty_conv)
    with assms(3) have c: "map_of CATEGORIES i \<noteq> None" by force
    from c m r spec_low_rows_arity[of ?items questions mapping i]
    show "map_of CATEGORIES i \<noteq> None \<and> map_of low i = Some (?rows i) \<and>
      (\<forall>row\<in>set (?rows i). length row = 3)" by simp
  qed
  from low_tables_ok[OF each, of "out @ [[], ''Results for questions on '' @ strftime t]"]
  obtain tables where
    l: "list_all2 (\<lambda>category table. generate_rst_table (?rows category)
          (low_title (the (map_of CATEGORIES category))) [''ID'', ''Question'', ''Answer''] =
          Inr table) ?cats tables"
    and lt: "low_tables ?cats low (out @ [[], ''Results for questions on '' @ strftime t]) =
        ((out @ [[], ''Results for questions on '' @ strftime t]) @ concat tables, None)"
    by blast
  have one: "table_results_low_questions_result result questions mapping out =
      (out @ [[], ''Results for questions on '' @ strftime t] @ concat tables, None)"
    unfolding table_results_low_questions_result_def
    using assms(1) lq lt sorted_keys by (simp add: Let_def)
  then have all: "table_results_low_questions [result] questions mapping out =
      (out @ [[], ''Results for questions on '' @ strftime t] @ concat tables, None)"
    by simp
  have mem: "\<forall>(idx, answer)\<in>set ?items. \<forall>category.
      [str_int idx, the (questions idx), str_int answer] \<in> set (?rows category) \<longleftrightarrow>
      answer \<le> 3 \<and> mapping idx = Some category"
    using spec_low_rows_member[of _ _ ?items questions mapping] by blast
  have dr: "\<forall>category. distinct (?rows category)"
    using spec_low_rows_distinct[OF assms(2)] by blast
  from l all cats_set mem dr show ?thesis by blast
qed


theorem table_results_low_questions_rows_witness:
  "time \<lparr>time = Some \<lparr>year = 2017, month = 3, day = 9, hour = 7, minute = 5, second = 0,
                          microsecond = 1234\<rparr>,
          result_q = [(0, 2), (1, 5), (2, 3)],
          result_c = [(''mental'', 5), (''technique'', 5)]\<rparr> =
     Some \<lparr>year = 2017, month = 3, day = 9, hour = 7, minute = 5, second = 0,
           microsecond = 1234\<rparr> \<and>
   distinct (map fst [(0, 2), (1, 5), (2, 3 :: int)] :: int list) \<and>
   list_all (\<lambda>(idx, answer).
       [0 \<mapsto> ''mental'', 1 \<mapsto> ''technique'', 2 \<mapsto> ''mental''] idx \<noteq> None \<and>
       (answer \<le> 3 \<longrightarrow>
          [0 \<mapsto> ''Q0'', 1 \<mapsto> ''Q1'', 2 \<mapsto> ''Q2''] idx \<noteq> None \<and>
          map_of CATEGORIES
            (the ([0 \<mapsto> ''mental'', 1 \<mapsto> ''technique'', 2 \<mapsto> ''mental''] idx)) \<noteq> None))
     [(0, 2), (1, 5), (2, 3 :: int)] \<and>
   (\<exists>tables.
      table_results_low_questions
        [\<lparr>time = Some \<lparr>year = 2017, month = 3, day = 9, hour = 7, minute = 5, second = 0,
                           microsecond = 1234\<rparr>,
           result_q = [(0, 2), (1, 5), (2, 3)],
           result_c = [(''mental'', 5), (''technique'', 5)]\<rparr>]
        [0 \<mapsto> ''Q0'', 1 \<mapsto> ''Q1'', 2 \<mapsto> ''Q2'']
        [0 \<mapsto> ''mental'', 1 \<mapsto> ''technique'', 2 \<mapsto> ''mental''] [] =
        ([[], ''Results for questions on 09.03.2017-07:05:00:001234''] @ concat tables, None) \<and>
      length tables = 1) \<and>
   spec_low_categories [(0, 2), (1, 5), (2, 3)]
     [0 \<mapsto> ''mental'', 1 \<mapsto> ''technique'', 2 \<mapsto> ''mental''] = [''mental''] \<and>
   spec_low_rows [(0, 2), (1, 5), (2, 3)] [0 \<mapsto> ''Q0'', 1 \<mapsto> ''Q1'', 2 \<mapsto> ''Q2'']
     [0 \<mapsto> ''mental'', 1 \<mapsto> ''technique'', 2 \<mapsto> ''mental''] ''mental'' =
     [[''0'', ''Q0'', ''2''], [''2'', ''Q2'', ''3'']]"
proof -
  let ?t = "\<lparr>year = 2017, month = 3, day = 9, hour = 7, minute = 5, second = 0,
      microsecond = 1234\<rparr>"
  let ?r = "\<lparr>time = Some ?t, result_q = [(0, 2), (1, 5), (2, 3)],
      result_c = [(''mental'', 5), (''technique'', 5)]\<rparr>"
  let ?q = "[0 \<mapsto> ''Q0'', 1 \<mapsto> ''Q1'', 2 \<mapsto> ''Q2''] :: int \<rightharpoonup> string"
  let ?m = "[0 \<mapsto> ''mental'', 1 \<mapsto> ''technique'', 2 \<mapsto> ''mental''] :: int \<rightharpoonup> string"
  have h1: "time ?r = Some ?t" by simp
  have h2: "distinct (map fst (result_q ?r))" by simp
  have h3: "\<forall>(idx, answer)\<in>set (result_q ?r).
      ?m idx \<noteq> None \<and>
      (answer \<le> 3 \<longrightarrow> ?q idx \<noteq> None \<and> map_of CATEGORIES (the (?m idx)) \<noteq> None)"
    by (simp add: CATEGORIES_def)
  have f: "strftime ?t = ''09.03.2017-07:05:00:001234''" by code_simp
  have c: "spec_low_categories [(0, 2), (1, 5), (2, 3)] ?m = [''mental'']" by code_simp
  have r: "spec_low_rows [(0, 2), (1, 5), (2, 3)] ?q ?m ''mental'' =
      [[''0'', ''Q0'', ''2''], [''2'', ''Q2'', ''3'']]"
    by code_simp
  from table_results_low_questions_rows[of ?r ?t ?m ?q "[]", OF h1 h2 h3]
  obtain tables where
    l: "list_all2
         (\<lambda>category table.
            generate_rst_table (spec_low_rows (result_q ?r) ?q ?m category)
              (low_title (the (map_of CATEGORIES category)))
              [''ID'', ''Question'', ''Answer''] = Inr table)
         (spec_low_categories (result_q ?r) ?m) tables"
    and o: "table_results_low_questions [?r] ?q ?m [] =
        ([] @ [[], ''Results for questions on '' @ strftime ?t] @ concat tables, None)"
    by blast
  from l have n: "length tables = 1"
    using c by (auto dest: list_all2_lengthD)
  from o n have "\<exists>tables. table_results_low_questions [?r] ?q ?m [] =
        ([[], ''Results for questions on 09.03.2017-07:05:00:001234''] @ concat tables, None) \<and>
      length tables = 1"
    unfolding f by auto
  with h1 h2 c r show ?thesis by (simp add: list_all_iff CATEGORIES_def)
qed

text \<open>
  Claim C6 as stated fails on a session without a timestamp, such as \<open>read_results\<close>
  returns for the line \<open>0=2\<close>: the report prints an empty line and stops with an
  \<open>AttributeError\<close>, so the answer 2 has no row in any table. It also fails on a
  session whose low answer is in a category without a name in \<open>CATEGORIES\<close>: the
  report stops with a \<open>KeyError\<close> after the heading.
\<close>

theorem table_results_low_questions_rows_counterexample:
  "read_results [''results.txt'' \<mapsto> ''0=2'' @ [CHR 0x0A]] ''results.txt'' [0 \<mapsto> ''mental''] =
     Inr [\<lparr>time = None, result_q = [(0, 2)], result_c = [(''mental'', 2)]\<rparr>] \<and>
   table_results_low_questions
     [\<lparr>time = None, result_q = [(0, 2)], result_c = [(''mental'', 2)]\<rparr>]
     [0 \<mapsto> ''Q0''] [0 \<mapsto> ''mental''] [] = ([[]], Some AttributeError) \<and>
   table_results_low_questions
     [\<lparr>time = Some \<lparr>year = 2017, month = 3, day = 9, hour = 7, minute = 5, second = 0,
                        microsecond = 1234\<rparr>,
        result_q = [(0, 2)], result_c = [(''strength'', 2)]\<rparr>]
     [0 \<mapsto> ''Q0''] [0 \<mapsto> ''strength''] [] =
     ([[], ''Results for questions on 09.03.2017-07:05:00:001234''], Some KeyError)"
proof -
  have a: "read_results [''results.txt'' \<mapsto> ''0=2'' @ [CHR 0x0A]] ''results.txt'' [0 \<mapsto> ''mental''] =
     Inr [\<lparr>time = None, result_q = [(0, 2)], result_c = [(''mental'', 2)]\<rparr>] \<and>
   table_results_low_questions
     [\<lparr>time = None, result_q = [(0, 2)], result_c = [(''mental'', 2)]\<rparr>]
     [0 \<mapsto> ''Q0''] [0 \<mapsto> ''mental''] [] = ([[]], Some AttributeError)"
    by (simp add: read_results_eval table_results_low_questions_result_def)
  have b: "table_results_low_questions
     [\<lparr>time = Some \<lparr>year = 2017, month = 3, day = 9, hour = 7, minute = 5, second = 0,
                        microsecond = 1234\<rparr>,
        result_q = [(0, 2)], result_c = [(''strength'', 2)]\<rparr>]
     [0 \<mapsto> ''Q0''] [0 \<mapsto> ''strength''] [] =
     ([[], ''Results for questions on 09.03.2017-07:05:00:001234''], Some KeyError)"
    by code_simp
  from a b show ?thesis by simp
qed

end
